theory Spec2Isabelle
  imports Complex_Main
begin

section \<open>Wilson score intervals: the numeric core of \<open>scripts/wilson_ci.py\<close>\<close>

text \<open>
  The script computes with Python \<open>float\<close>s. A float operation is the exact real
  operation followed by a rounding to the nearest representable number, so every function
  below takes the rounding operator \<open>rnd\<close> as its first argument and applies it after
  each arithmetic operation, each library call and each decimal literal of the source.
  Two instances are used:
  \<^item> \<open>exact\<close>, the identity: arithmetic on the reals, the reading of the
    specification, whose quantities are real numbers;
  \<^item> \<open>fl64\<close>, rounding to the nearest number with a 53 bit significand, ties to
    even: the binary64 arithmetic of the interpreter. Its exponent range is not bounded:
    overflow to infinity, subnormal numbers, infinities and NaN are outside the model. The
    one place where the range of binary64 raises an exception, the conversion of an integer
    to a float, is modelled with its \<open>OverflowError\<close>.
  \<open>math.log\<close> is read as the correctly rounded logarithm.
  Every \<open>raise\<close> of the source, and every exception an operation of the source can
  raise, is a value \<open>Inl\<close> of the result, with the exception's message.
\<close>

datatype py_error = ValueError string | ZeroDivisionError string | OverflowError string

definition exact :: "real \<Rightarrow> real" where
  "exact x = x"

subsection \<open>Rounding\<close>

text \<open>
  \<open>rne\<close> rounds a real to the nearest integer, a tie to the even one. \<open>fl64\<close> scales
  its argument into the binade \<open>[2^52, 2^53)\<close>, rounds there and scales back.
\<close>

definition rne :: "real \<Rightarrow> int" where
  "rne x = (let f = \<lfloor>x\<rfloor> in
            if x - of_int f < 1 / 2 then f
            else if 1 / 2 < x - of_int f then f + 1
            else if even f then f else f + 1)"

definition fl64 :: "real \<Rightarrow> real" where
  "fl64 x = (if x = 0 then 0
             else let e = \<lfloor>log 2 \<bar>x\<bar>\<rfloor> - 52
                  in of_int (rne (x / 2 powi e)) * 2 powi e)"

subsection \<open>Library operations\<close>

text \<open>\<open>math.log\<close>, \<open>math.sqrt\<close> and float division, with their domain errors.\<close>

definition math_log :: "(real \<Rightarrow> real) \<Rightarrow> real \<Rightarrow> py_error + real" where
  "math_log rnd x = (if x \<le> 0 then Inl (ValueError ''math domain error'') else Inr (rnd (ln x)))"

definition math_sqrt :: "(real \<Rightarrow> real) \<Rightarrow> real \<Rightarrow> py_error + real" where
  "math_sqrt rnd x = (if x < 0 then Inl (ValueError ''math domain error'') else Inr (rnd (sqrt x)))"

definition float_div :: "(real \<Rightarrow> real) \<Rightarrow> real \<Rightarrow> real \<Rightarrow> py_error + real" where
  "float_div rnd x y =
     (if y = 0 then Inl (ZeroDivisionError ''float division by zero'') else Inr (rnd (x / y)))"

text \<open>
  The conversion of a Python integer to a float, which every operation between a float and
  an integer performs on the integer: the integer is rounded to 53 bits, and the conversion
  raises when the rounded value is beyond the largest binary64 number, that is when it
  reaches \<open>2^1024\<close>.
\<close>

definition int_to_float :: "(real \<Rightarrow> real) \<Rightarrow> int \<Rightarrow> py_error + real" where
  "int_to_float rnd i =
     (if 2 ^ 1024 \<le> \<bar>rnd (of_int i)\<bar>
      then Inl (OverflowError ''int too large to convert to float'')
      else Inr (rnd (of_int i)))"

text \<open>Sequencing: the first exception ends the computation.\<close>

definition and_then :: "py_error + 'a \<Rightarrow> ('a \<Rightarrow> py_error + 'b) \<Rightarrow> py_error + 'b" where
  "and_then m f = (case m of Inl e \<Rightarrow> Inl e | Inr x \<Rightarrow> f x)"

subsection \<open>\<open>normal_quantile\<close>\<close>

text \<open>The coefficient lists \<open>a\<close>, \<open>b\<close>, \<open>c\<close>, \<open>d\<close> of the source, as written there.\<close>

definition coeff_a :: "real list" where
  "coeff_a = [- 39.69683028665376, 220.9460984245205, - 275.9285104469687,
              138.3577518672690, - 30.66479806614716, 2.506628277459239]"

definition coeff_b :: "real list" where
  "coeff_b = [- 54.47609879822406, 161.5858368580409, - 155.6989798598866,
              66.80131188771972, - 13.28068155288572]"

definition coeff_c :: "real list" where
  "coeff_c = [- 0.007784894002430293, - 0.3223964580411365, - 2.400758277161838,
              - 2.549732539343734, 4.374664141464968, 2.938163982698783]"

definition coeff_d :: "real list" where
  "coeff_d = [0.007784695709041462, 0.3224671290700398, 2.445134137142996,
              3.754408661907416]"

definition normal_quantile :: "(real \<Rightarrow> real) \<Rightarrow> real \<Rightarrow> py_error + real" where
  "normal_quantile rnd p =
     (if \<not> (0 < p \<and> p < 1) then Inl (ValueError ''p must be in (0, 1)'')
      else
        let a = map rnd coeff_a; b = map rnd coeff_b;
            c = map rnd coeff_c; d = map rnd coeff_d;
            plow = rnd 0.02425;
            phigh = rnd (1 - plow)
        in
          if p < plow then
            and_then (math_log rnd p) (\<lambda>l.
            and_then (math_sqrt rnd (rnd (- 2 * l))) (\<lambda>q.
               let num = rnd (rnd (rnd (rnd (rnd (rnd (rnd (rnd (rnd (rnd
                           (c ! 0 * q) + c ! 1) * q) + c ! 2) * q) + c ! 3) * q) + c ! 4) * q) + c ! 5);
                   den = rnd (rnd (rnd (rnd (rnd (rnd (rnd (rnd
                           (d ! 0 * q) + d ! 1) * q) + d ! 2) * q) + d ! 3) * q) + 1)
               in float_div rnd num den))
          else if p > phigh then
            and_then (math_log rnd (rnd (1 - p))) (\<lambda>l.
            and_then (math_sqrt rnd (rnd (- 2 * l))) (\<lambda>q.
               let num = - rnd (rnd (rnd (rnd (rnd (rnd (rnd (rnd (rnd (rnd
                           (c ! 0 * q) + c ! 1) * q) + c ! 2) * q) + c ! 3) * q) + c ! 4) * q) + c ! 5);
                   den = rnd (rnd (rnd (rnd (rnd (rnd (rnd (rnd
                           (d ! 0 * q) + d ! 1) * q) + d ! 2) * q) + d ! 3) * q) + 1)
               in float_div rnd num den))
          else
            let q = rnd (p - 0.5);
                r = rnd (q * q);
                num = rnd (rnd (rnd (rnd (rnd (rnd (rnd (rnd (rnd (rnd (rnd
                        (a ! 0 * r) + a ! 1) * r) + a ! 2) * r) + a ! 3) * r) + a ! 4) * r) + a ! 5) * q);
                den = rnd (rnd (rnd (rnd (rnd (rnd (rnd (rnd (rnd (rnd
                        (b ! 0 * r) + b ! 1) * r) + b ! 2) * r) + b ! 3) * r) + b ! 4) * r) + 1)
            in float_div rnd num den)"

subsection \<open>\<open>wilson_ci\<close>\<close>

text \<open>
  \<open>k\<close> and \<open>n\<close> are Python integers. \<open>k / n\<close> is the true division of two
  integers, rounded once, and it converts neither of them. In \<open>z2 / n\<close>, \<open>2.0 * n\<close>,
  \<open>4.0 * n\<close> and the division of the radicand by \<open>n\<close> the integer is converted to a
  float first; \<open>z2 / n\<close> is the first of the four, so it is the one that raises when
  \<open>n\<close> is too large, and the other three get the same float. \<open>max(0.0, x)\<close> and
  \<open>min(1.0, x)\<close> return their first argument unless the second is strictly beyond it.
\<close>

definition wilson_ci :: "(real \<Rightarrow> real) \<Rightarrow> int \<Rightarrow> int \<Rightarrow> real \<Rightarrow> py_error + real \<times> real" where
  "wilson_ci rnd k n conf =
     (if n \<le> 0 then Inl (ValueError ''n must be > 0'')
      else if \<not> (0 \<le> k \<and> k \<le> n) then Inl (ValueError ''k must be between 0 and n'')
      else if \<not> (0 < conf \<and> conf < 1) then Inl (ValueError ''conf must be in (0,1)'')
      else
        let alpha = rnd (1 - conf) in
        and_then (normal_quantile rnd (rnd (1 - rnd (alpha / 2)))) (\<lambda>z.
        let phat = rnd (of_int k / of_int n);
            z2 = rnd (z * z)
        in
        and_then (int_to_float rnd n) (\<lambda>fn.
        and_then (float_div rnd z2 fn) (\<lambda>z2n.
        let denom = rnd (1 + z2n) in
        and_then (float_div rnd z2 (rnd (2 * fn))) (\<lambda>z2n2.
        and_then (float_div rnd (rnd (phat + z2n2)) denom) (\<lambda>center.
        and_then (float_div rnd z2 (rnd (4 * fn))) (\<lambda>z2n4.
        and_then (float_div rnd (rnd (rnd (phat * rnd (1 - phat)) + z2n4)) fn) (\<lambda>v.
        and_then (math_sqrt rnd v) (\<lambda>s.
        and_then (float_div rnd (rnd (z * s)) denom) (\<lambda>half_width.
        let lo = rnd (center - half_width);
            hi = rnd (center + half_width);
            low = (if 0 < lo then lo else 0);
            high = (if hi < 1 then hi else 1)
        in Inr (low, high)))))))))))"

section \<open>The command line layer\<close>

text \<open>
  \<open>argparse\<close> is not part of the script: its result, the namespace \<open>args\<close>, is the
  input of \<open>main\<close> here. Strings are lists of characters with code points below 256.
  The process is what the interpreter makes of \<open>raise SystemExit(main(sys.argv[1:]))\<close>:
  the integer \<open>main\<close> returns is the exit status, and an exception that leaves
  \<open>main\<close> ends the process with status 1 after its traceback is written to the error
  stream. Of the traceback the first and the last line are kept; the frame lines between
  them depend on the installation.
\<close>

subsection \<open>Strings and numbers as text\<close>

text \<open>
  \<open>str.strip()\<close> and the class \<open>\s\<close> remove or match the characters for which
  \<open>str.isspace()\<close> holds; \<open>\d\<close> matches the decimal digits.
\<close>

definition is_space :: "char \<Rightarrow> bool" where
  "is_space c = ((of_char c :: nat) \<in> {9, 10, 11, 12, 13, 28, 29, 30, 31, 32, 133, 160})"

definition is_digit :: "char \<Rightarrow> bool" where
  "is_digit c = (48 \<le> (of_char c :: nat) \<and> (of_char c :: nat) \<le> 57)"

definition strip :: "string \<Rightarrow> string" where
  "strip s = rev (dropWhile is_space (rev (dropWhile is_space s)))"

definition quoted :: "string \<Rightarrow> string" where
  "quoted s = [char_of (39::nat)] @ s @ [char_of (39::nat)]"

text \<open>
  \<open>int(s)\<close> for a string of decimal digits, and \<open>str(i)\<close> for an integer. The
  interpreter refuses to convert a string of more than 4300 digits, leading zeros counted
  (the default of \<open>sys.set_int_max_str_digits\<close>). An integer that \<open>int(s)\<close> has
  returned is below \<open>10^4300\<close>, so \<open>str(i)\<close> is never refused here.
\<close>

definition int_of_digits :: "string \<Rightarrow> int" where
  "int_of_digits ds = foldl (\<lambda>v c. 10 * v + (of_char c - 48)) 0 ds"

function str_nat :: "nat \<Rightarrow> string" where
  "str_nat m = (if m < 10 then [char_of (48 + m)]
                else str_nat (m div 10) @ [char_of (48 + m mod 10)])"
  by pat_completeness auto
termination
  by (relation "measure (\<lambda>m. m)") auto

definition py_int_of_str :: "string \<Rightarrow> py_error + int" where
  "py_int_of_str ds =
     (if 4300 < length ds then
        Inl (ValueError (''Exceeds the limit (4300 digits) for integer string conversion: ''
                          @ ''value has '' @ str_nat (length ds) @ '' digits; ''
                          @ ''use sys.set_int_max_str_digits() to increase the limit''))
      else Inr (int_of_digits ds))"

definition str_int :: "int \<Rightarrow> string" where
  "str_int i = (if i < 0 then CHR ''-'' # str_nat (nat (- i)) else str_nat (nat i))"

definition ljust :: "string \<Rightarrow> nat \<Rightarrow> string" where
  "ljust s w = s @ replicate (w - length s) CHR '' ''"

fun join :: "string \<Rightarrow> string list \<Rightarrow> string" where
  "join sep [] = []"
| "join sep [x] = x"
| "join sep (x # y # ys) = x @ sep @ join sep (y # ys)"

text \<open>\<open>int(x)\<close> for a float: truncation towards zero.\<close>

definition py_int :: "real \<Rightarrow> int" where
  "py_int x = (if 0 \<le> x then \<lfloor>x\<rfloor> else \<lceil>x\<rceil>)"

text \<open>
  The format \<open>f"{x:.{digits}f}"\<close>: \<open>digits\<close> decimals, the last one rounded to nearest,
  ties to even; no decimal point when \<open>digits\<close> is 0. A negative precision is not a
  format specification, and one above the largest C \<open>int\<close> is refused.
\<close>

definition fixed_point :: "real \<Rightarrow> nat \<Rightarrow> string" where
  "fixed_point x d =
     (let m = nat (rne (\<bar>x\<bar> * 10 ^ d));
          ip = str_nat (m div 10 ^ d);
          fp = str_nat (m mod 10 ^ d)
      in (if x < 0 then ''-'' else []) @ ip @
         (if d = 0 then [] else ''.'' @ replicate (d - length fp) CHR ''0'' @ fp))"

definition format_f :: "real \<Rightarrow> int \<Rightarrow> py_error + string" where
  "format_f x digits =
     (if digits < 0 then Inl (ValueError ''Format specifier missing precision'')
      else if 2147483647 < digits then Inl (ValueError ''precision too big'')
      else Inr (fixed_point x (nat digits)))"

subsection \<open>\<open>parse_result\<close>\<close>

record Result =
  res_label :: string
  res_k :: int
  res_n :: int

text \<open>
  \<open>re.fullmatch(r"(\d+)\s*/\s*(\d+)", frac)\<close>: the three character classes are
  disjoint, so the match is a single scan from the left; the result is the two groups.
\<close>

definition match_fraction :: "string \<Rightarrow> (string \<times> string) option" where
  "match_fraction fraction =
     (let g1 = takeWhile is_digit fraction;
          rest1 = dropWhile is_space (dropWhile is_digit fraction)
      in case rest1 of
           [] \<Rightarrow> None
         | c # rest2 \<Rightarrow>
             let rest3 = dropWhile is_space rest2;
                 g2 = takeWhile is_digit rest3
             in if c = CHR ''/'' \<and> g1 \<noteq> [] \<and> g2 \<noteq> [] \<and> dropWhile is_digit rest3 = []
                then Some (g1, g2) else None)"

definition parse_result :: "string \<Rightarrow> py_error + Result" where
  "parse_result s0 =
     (let s = strip s0 in
      if CHR ''='' \<notin> set s then
        Inl (ValueError (''Missing '' @ quoted ''='' @ '' in '' @ quoted s
                          @ ''. Expected format: Label=k/n''))
      else
        let label = strip (takeWhile (\<lambda>c. c \<noteq> CHR ''='') s);
            fraction = strip (tl (dropWhile (\<lambda>c. c \<noteq> CHR ''='') s))
        in case match_fraction fraction of
             None \<Rightarrow>
               Inl (ValueError (''Bad fraction '' @ quoted fraction @ '' in '' @ quoted s
                                 @ ''. Expected k/n like 28/42''))
           | Some (g1, g2) \<Rightarrow>
               and_then (py_int_of_str g1) (\<lambda>k.
               and_then (py_int_of_str g2) (\<lambda>n.
               if n \<le> 0 then Inl (ValueError (''n must be > 0 in '' @ quoted s))
               else if k < 0 \<or> k > n then
                 Inl (ValueError (''k must be in [0,n] in '' @ quoted s))
               else Inr \<lparr>res_label =
                           (if label = [] then str_int k @ ''/'' @ str_int n else label),
                         res_k = k, res_n = n\<rparr>)))"

subsection \<open>\<open>fmt_percent\<close> and \<open>main\<close>\<close>

definition fmt_percent :: "(real \<Rightarrow> real) \<Rightarrow> real \<Rightarrow> int \<Rightarrow> py_error + string" where
  "fmt_percent rnd x digits = format_f (rnd (x * 100)) digits"

record args =
  arg_results :: "string list"
  arg_conf :: real
  arg_digits :: int
  arg_as_percent :: bool
  arg_as_prop :: bool

text \<open>The loop \<open>for s in args.results: parsed.append(parse_result(s))\<close>.\<close>

fun parse_all :: "string list \<Rightarrow> py_error + Result list" where
  "parse_all [] = Inr []"
| "parse_all (s # ss) =
     and_then (parse_result s) (\<lambda>r. and_then (parse_all ss) (\<lambda>rs. Inr (r # rs)))"

text \<open>One pass of the loop \<open>for r in parsed\<close>: the row of the table for \<open>r\<close>.\<close>

definition table_row :: "(real \<Rightarrow> real) \<Rightarrow> args \<Rightarrow> bool \<Rightarrow> Result \<Rightarrow> py_error + string list" where
  "table_row rnd a use_prop r =
     and_then (wilson_ci rnd (res_k r) (res_n r) (arg_conf a)) (\<lambda>(low, high).
     let phat = rnd (of_int (res_k r) / of_int (res_n r)) in
     if use_prop then
       and_then (format_f phat (arg_digits a)) (\<lambda>p_str.
       and_then (format_f low (arg_digits a)) (\<lambda>low_str.
       and_then (format_f high (arg_digits a)) (\<lambda>high_str.
         Inr [res_label r, str_int (res_k r), str_int (res_n r), p_str,
              ''['' @ low_str @ '', '' @ high_str @ '']''])))
     else
       and_then (fmt_percent rnd phat (arg_digits a)) (\<lambda>p_str.
       and_then (fmt_percent rnd low (arg_digits a)) (\<lambda>low_str.
       and_then (fmt_percent rnd high (arg_digits a)) (\<lambda>high_str.
         Inr [res_label r, str_int (res_k r), str_int (res_n r), p_str,
              ''['' @ low_str @ ''%, '' @ high_str @ ''%]'']))))"

fun table_rows :: "(real \<Rightarrow> real) \<Rightarrow> args \<Rightarrow> bool \<Rightarrow> Result list \<Rightarrow> py_error + string list list" where
  "table_rows rnd a use_prop [] = Inr []"
| "table_rows rnd a use_prop (r # rs) =
     and_then (table_row rnd a use_prop r) (\<lambda>row.
     and_then (table_rows rnd a use_prop rs) (\<lambda>rows. Inr (row # rows)))"

definition col_widths :: "string list \<Rightarrow> string list list \<Rightarrow> nat list" where
  "col_widths header rows =
     foldl (\<lambda>ws row. map (\<lambda>(w, cell). max w (length cell)) (zip ws row)) (map length header) rows"

definition print_row :: "nat list \<Rightarrow> string list \<Rightarrow> string" where
  "print_row ws cells = join ''  '' (map (\<lambda>(cell, w). ljust cell w) (zip cells ws))"

text \<open>
  \<open>main\<close> returns an integer or raises, and prints: the result is the returned value or
  the exception, the lines written to the output stream and the lines written to the error
  stream.
\<close>

definition main :: "(real \<Rightarrow> real) \<Rightarrow> args \<Rightarrow> (py_error + int) \<times> string list \<times> string list" where
  "main rnd a =
     (if arg_as_percent a \<and> arg_as_prop a then
        (Inr 2, [], [''Error: Choose only one of --as-percent or --as-prop.''])
      else
        let use_prop = arg_as_prop a in
        (case parse_all (arg_results a) of
           Inl e \<Rightarrow> (Inl e, [], [])
         | Inr parsed \<Rightarrow>
             (let ci_title = ''Wilson '' @ str_int (py_int (rnd (arg_conf a * 100)))
                              @ ''% CI [low, high]'';
                  header = (if use_prop then [''Label'', ''k'', ''n'', ''p_hat'', ci_title]
                            else [''Label'', ''k'', ''n'', ''%'', ci_title])
              in (case table_rows rnd a use_prop parsed of
                    Inl e \<Rightarrow> (Inl e, [], [])
                  | Inr rows \<Rightarrow>
                      (let ws = col_widths header rows in
                       (Inr 0,
                        print_row ws header
                          # print_row ws (map (\<lambda>w. replicate w CHR ''-'') ws)
                          # map (print_row ws) rows,
                        []))))))"

text \<open>The process: exit status, output stream, error stream.\<close>

definition error_line :: "py_error \<Rightarrow> string" where
  "error_line e = (case e of ValueError m \<Rightarrow> ''ValueError: '' @ m
                            | ZeroDivisionError m \<Rightarrow> ''ZeroDivisionError: '' @ m
                            | OverflowError m \<Rightarrow> ''OverflowError: '' @ m)"

definition script :: "(real \<Rightarrow> real) \<Rightarrow> args \<Rightarrow> int \<times> string list \<times> string list" where
  "script rnd a =
     (case main rnd a of
        (Inr code, out, err) \<Rightarrow> (code, out, err)
      | (Inl e, out, err) \<Rightarrow>
          (1, out, err @ [''Traceback (most recent call last):'', error_line e]))"

subsection \<open>Roundings\<close>

text \<open>
  What the proofs use of a rounding operator: it is monotone, its relative error is at most
  \<open>2^-53\<close>, and it leaves every number with a significand below \<open>2^53\<close> as it is.
  Both \<open>exact\<close> and \<open>fl64\<close> are roundings in this sense.
\<close>

definition rounding :: "(real \<Rightarrow> real) \<Rightarrow> bool" where
  "rounding rnd \<longleftrightarrow>
     (\<forall>x y. x \<le> y \<longrightarrow> rnd x \<le> rnd y)
     \<and> (\<forall>x. \<bar>rnd x - x\<bar> \<le> \<bar>x\<bar> / 2 ^ 53)
     \<and> (\<forall>m j. \<bar>m\<bar> < 2 ^ 53 \<longrightarrow> rnd (of_int m * 2 powi j) = of_int m * 2 powi j)"

text \<open>
  The rounded Horner scheme \<open>(acc * x + c1) * x + c2 ...\<close> with the literals \<open>c1, c2, ...\<close>
  rounded, and the two polynomials of the tails of \<open>normal_quantile\<close> as functions of the
  rounded coefficient list.
\<close>

fun horner_rnd :: "(real \<Rightarrow> real) \<Rightarrow> real \<Rightarrow> real \<Rightarrow> real list \<Rightarrow> real" where
  "horner_rnd rnd x acc [] = acc"
| "horner_rnd rnd x acc (c # cs) = horner_rnd rnd x (rnd (rnd (acc * x) + rnd c)) cs"

definition tail_num :: "(real \<Rightarrow> real) \<Rightarrow> real list \<Rightarrow> real \<Rightarrow> real" where
  "tail_num rnd c q = rnd (rnd (rnd (rnd (rnd (rnd (rnd (rnd (rnd (rnd
      (c ! 0 * q) + c ! 1) * q) + c ! 2) * q) + c ! 3) * q) + c ! 4) * q) + c ! 5)"

definition tail_den :: "(real \<Rightarrow> real) \<Rightarrow> real list \<Rightarrow> real \<Rightarrow> real" where
  "tail_den rnd d q = rnd (rnd (rnd (rnd (rnd (rnd (rnd (rnd
      (d ! 0 * q) + d ! 1) * q) + d ! 2) * q) + d ! 3) * q) + 1)"

subsection \<open>The formulas in exact arithmetic\<close>

text \<open>
  The four polynomials of \<open>normal_quantile\<close> in Horner form, and the centre and the
  half width of the Wilson interval, as real functions: what the code computes when no
  operation rounds.
\<close>

definition poly_A :: "real \<Rightarrow> real" where
  "poly_A r = ((((coeff_a ! 0 * r + coeff_a ! 1) * r + coeff_a ! 2) * r + coeff_a ! 3) * r + coeff_a ! 4) * r + coeff_a ! 5"

definition poly_B :: "real \<Rightarrow> real" where
  "poly_B r = ((((coeff_b ! 0 * r + coeff_b ! 1) * r + coeff_b ! 2) * r + coeff_b ! 3) * r + coeff_b ! 4) * r + 1"

definition poly_C :: "real \<Rightarrow> real" where
  "poly_C q = ((((coeff_c ! 0 * q + coeff_c ! 1) * q + coeff_c ! 2) * q + coeff_c ! 3) * q + coeff_c ! 4) * q + coeff_c ! 5"

definition poly_D :: "real \<Rightarrow> real" where
  "poly_D q = (((coeff_d ! 0 * q + coeff_d ! 1) * q + coeff_d ! 2) * q + coeff_d ! 3) * q + 1"

definition wilson_center :: "real \<Rightarrow> int \<Rightarrow> int \<Rightarrow> real" where
  "wilson_center z k n =
     (of_int k / of_int n + z * z / (2 * of_int n)) / (1 + z * z / of_int n)"

definition wilson_radicand :: "real \<Rightarrow> int \<Rightarrow> int \<Rightarrow> real" where
  "wilson_radicand z k n =
     (of_int k / of_int n * (1 - of_int k / of_int n) + z * z / (4 * of_int n)) / of_int n"

definition wilson_half_width :: "real \<Rightarrow> int \<Rightarrow> int \<Rightarrow> real" where
  "wilson_half_width z k n = z * sqrt (wilson_radicand z k n) / (1 + z * z / of_int n)"

section \<open>Exact arithmetic\<close>

subsection \<open>The polynomials\<close>

lemma map_exact: "map exact xs = xs"
  by (induction xs) (simp_all add: exact_def)

lemma normal_quantile_exact:
  "normal_quantile exact p =
     (if \<not> (0 < p \<and> p < 1) then Inl (ValueError ''p must be in (0, 1)'')
      else if p < 0.02425 then
        (let q = sqrt (- 2 * ln p) in float_div exact (poly_C q) (poly_D q))
      else if p > 1 - 0.02425 then
        (let q = sqrt (- 2 * ln (1 - p)) in float_div exact (- poly_C q) (poly_D q))
      else float_div exact (poly_A ((p - 0.5) * (p - 0.5)) * (p - 0.5)) (poly_B ((p - 0.5) * (p - 0.5))))"
proof -
  have neg: "0 \<le> - 2 * ln x" if "0 < x" "x < 1" for x :: real
    using that by (simp add: mult_nonneg_nonpos2)
  show ?thesis
    unfolding normal_quantile_def map_exact Let_def poly_A_def poly_B_def poly_C_def poly_D_def
    using neg[of p] neg[of "1 - p"]
    by (simp add: exact_def math_log_def math_sqrt_def and_then_def)
qed

lemma poly_A_cert: "(poly_A r - 1 / 100) * 602738989907000000000000000 =
      2496628277459239 * r^0 * (227 - 1000 * r)^5 +
      5522232226280789680 * r^1 * (227 - 1000 * r)^4 +
      4252082726499273021000 * r^2 * (227 - 1000 * r)^3 +
      1361578907640911000697900 * r^3 * (227 - 1000 * r)^2 +
      159361594969063972276040500 * r^4 * (227 - 1000 * r)^1 +
      334637616388020012696899680 * r^5 * (227 - 1000 * r)^0"
  unfolding poly_A_def coeff_a_def
  by (simp add: power_eq_if algebra_simps)

lemma poly_B_cert: "(poly_B r - 1 / 500) * 30136949495350000000000000 =
      49900000000000 * r^0 * (227 - 1000 * r)^5 +
      98764264374747078 * r^1 * (227 - 1000 * r)^4 +
      68167297512103784594 * r^2 * (227 - 1000 * r)^3 +
      19855111766007789242610 * r^3 * (227 - 1000 * r)^2 +
      2217829924448673843504845 * r^4 * (227 - 1000 * r)^1 +
      24007857611815868401616879 * r^5 * (227 - 1000 * r)^0"
  unfolding poly_B_def coeff_b_def
  by (simp add: power_eq_if algebra_simps)

lemma poly_A_lower:
  assumes "0 \<le> r" "r \<le> 227 / 1000"
  shows "1 / 100 \<le> poly_A r"
proof -
  have nn: "0 \<le> 227 - 1000 * r"
    using assms by simp
  have "0 \<le> (poly_A r - 1 / 100) * 602738989907000000000000000"
    unfolding poly_A_cert using assms(1) nn
    by (intro add_nonneg_nonneg mult_nonneg_nonneg zero_le_power) simp_all
  then show ?thesis
    by (simp add: zero_le_mult_iff)
qed

lemma poly_B_lower:
  assumes "0 \<le> r" "r \<le> 227 / 1000"
  shows "1 / 500 \<le> poly_B r"
proof -
  have nn: "0 \<le> 227 - 1000 * r"
    using assms by simp
  have "0 \<le> (poly_B r - 1 / 500) * 30136949495350000000000000"
    unfolding poly_B_cert using assms(1) nn
    by (intro add_nonneg_nonneg mult_nonneg_nonneg zero_le_power) simp_all
  then show ?thesis
    by (simp add: zero_le_mult_iff)
qed

lemma poly_D_ge_one:
  assumes "0 \<le> q"
  shows "1 \<le> poly_D q"
proof -
  have "0 \<le> (((coeff_d ! 0 * q + coeff_d ! 1) * q + coeff_d ! 2) * q + coeff_d ! 3) * q"
    using assms unfolding coeff_d_def
    by (intro add_nonneg_nonneg mult_nonneg_nonneg) simp_all
  then show ?thesis
    by (simp add: poly_D_def)
qed

lemma poly_C_neg:
  assumes "39 / 16 \<le> q"
  shows "poly_C q < 0"
proof -
  have q0: "0 \<le> q"
    using assms by simp
  have h1: "coeff_c ! 0 * q + coeff_c ! 1 \<le> 0"
    using q0 by (simp add: coeff_c_def mult_nonneg_nonpos2 add_nonpos_nonpos)
  have h2: "(coeff_c ! 0 * q + coeff_c ! 1) * q + coeff_c ! 2 \<le> 0"
    using h1 q0 by (intro add_nonpos_nonpos mult_nonpos_nonneg) (simp_all add: coeff_c_def)
  have h3: "((coeff_c ! 0 * q + coeff_c ! 1) * q + coeff_c ! 2) * q + coeff_c ! 3 \<le> - (5 / 2)"
  proof -
    have "((coeff_c ! 0 * q + coeff_c ! 1) * q + coeff_c ! 2) * q \<le> 0"
      using h2 q0 by (rule mult_nonpos_nonneg)
    moreover have "coeff_c ! 3 \<le> - (5 / 2)"
      by (simp add: coeff_c_def)
    ultimately show ?thesis by linarith
  qed
  have h4: "(((coeff_c ! 0 * q + coeff_c ! 1) * q + coeff_c ! 2) * q + coeff_c ! 3) * q + coeff_c ! 4
              \<le> - (17 / 10)"
  proof -
    have "(((coeff_c ! 0 * q + coeff_c ! 1) * q + coeff_c ! 2) * q + coeff_c ! 3) * q \<le> - (5 / 2) * q"
      using h3 q0 by (rule mult_right_mono)
    moreover have "coeff_c ! 4 \<le> 35 / 8"
      by (simp add: coeff_c_def)
    ultimately show ?thesis using assms by linarith
  qed
  have "((((coeff_c ! 0 * q + coeff_c ! 1) * q + coeff_c ! 2) * q + coeff_c ! 3) * q + coeff_c ! 4) * q
          \<le> - (17 / 10) * q"
    using h4 q0 by (rule mult_right_mono)
  moreover have "coeff_c ! 5 \<le> 3"
    by (simp add: coeff_c_def)
  ultimately show ?thesis
    unfolding poly_C_def using assms by linarith
qed

lemma neg_two_ln_nonneg:
  assumes "0 < x" "x < (1::real)"
  shows "0 \<le> - 2 * ln x"
  using assms by (simp add: mult_nonneg_nonpos2)

lemma ln_tail_bound:
  assumes "0 < x" "x < (0.02425::real)"
  shows "ln x \<le> - 3"
proof -
  have "exp (3::real) = exp 1 ^ 3"
    using exp_of_nat_mult [of 3 "1::real"] by simp
  also have "\<dots> \<le> 3 ^ 3"
    by (intro power_mono exp_le) simp
  finally have e3: "exp (3::real) \<le> 27"
    by simp
  have "x \<le> 1 / 27"
    using assms(2) by simp
  also have "\<dots> \<le> 1 / exp 3"
    using e3 by (intro divide_left_mono) simp_all
  also have "\<dots> = exp (- 3)"
    by (simp add: exp_minus inverse_eq_divide)
  finally have "ln x \<le> ln (exp (- 3))"
    using assms(1) by (subst ln_le_cancel_iff) simp_all
  then show ?thesis
    by simp
qed

lemma tail_q_lower:
  assumes "0 < x" "x < (0.02425::real)"
  shows "39 / 16 \<le> sqrt (- 2 * ln x)"
proof -
  have "(39 / 16)\<^sup>2 \<le> (6::real)"
    by (simp add: power2_eq_square)
  also have "\<dots> \<le> - 2 * ln x"
    using ln_tail_bound [OF assms] by simp
  finally show ?thesis
    by (rule real_le_rsqrt)
qed

lemma central_r_bound:
  assumes "\<not> p < 0.02425" "\<not> 1 - 0.02425 < (p::real)"
  shows "0 \<le> (p - 0.5) * (p - 0.5)" "(p - 0.5) * (p - 0.5) \<le> 227 / 1000"
proof -
  show "0 \<le> (p - 0.5) * (p - 0.5)"
    by simp
  have "p - 0.5 \<le> 0.47575" "- (p - 0.5) \<le> 0.47575"
    using assms by simp_all
  then have "\<bar>p - 0.5\<bar> \<le> 0.47575"
    by (rule abs_leI)
  then have "\<bar>p - 0.5\<bar> * \<bar>p - 0.5\<bar> \<le> 0.47575 * 0.47575"
    by (intro mult_mono) simp_all
  then show "(p - 0.5) * (p - 0.5) \<le> 227 / 1000"
    by (simp add: abs_mult_self_eq)
qed

lemma normal_quantile_exact_total:
  assumes "0 < p" "p < 1"
  shows "\<exists>z. normal_quantile exact p = Inr z"
proof -
  consider "p < 0.02425" | "\<not> p < 0.02425" "1 - 0.02425 < p"
    | "\<not> p < 0.02425" "\<not> 1 - 0.02425 < p"
    by blast
  then show ?thesis
  proof cases
    case 1
    have "1 \<le> poly_D (sqrt (- 2 * ln p))"
      using neg_two_ln_nonneg [of p] assms by (intro poly_D_ge_one) simp
    then show ?thesis
      using assms 1 by (auto simp add: normal_quantile_exact Let_def float_div_def)
  next
    case 2
    have "1 \<le> poly_D (sqrt (- 2 * ln (1 - p)))"
      using neg_two_ln_nonneg [of "1 - p"] assms by (intro poly_D_ge_one) simp
    then show ?thesis
      using assms 2 by (auto simp add: normal_quantile_exact Let_def float_div_def)
  next
    case 3
    have "1 / 500 \<le> poly_B ((p - 0.5) * (p - 0.5))"
      using central_r_bound [OF 3] by (rule poly_B_lower)
    then show ?thesis
      using assms 3 by (auto simp add: normal_quantile_exact Let_def float_div_def)
  qed
qed

lemma normal_quantile_exact_nonneg:
  assumes "1 / 2 \<le> p" "p < 1" "normal_quantile exact p = Inr z"
  shows "0 \<le> z"
proof (cases "1 - 0.02425 < p")
  case True
  let ?q = "sqrt (- 2 * ln (1 - p))"
  have x: "0 < 1 - p" "1 - p < 0.02425"
    using assms(2) True by simp_all
  have q: "39 / 16 \<le> ?q"
    using x by (rule tail_q_lower)
  have c: "poly_C ?q < 0"
    using q by (rule poly_C_neg)
  have d: "1 \<le> poly_D ?q"
    using q by (intro poly_D_ge_one) linarith
  have "z = - poly_C ?q / poly_D ?q"
    using assms True d by (auto simp add: normal_quantile_exact Let_def float_div_def exact_def
        split: if_splits)
  moreover have "0 \<le> - poly_C ?q / poly_D ?q"
    using c d by (intro divide_nonneg_nonneg) simp_all
  ultimately show ?thesis
    by simp
next
  case False
  let ?r = "(p - 0.5) * (p - 0.5)"
  have np: "\<not> p < 0.02425"
    using assms(1) by simp
  have a: "1 / 100 \<le> poly_A ?r"
    using central_r_bound [OF np False] by (rule poly_A_lower)
  have b: "1 / 500 \<le> poly_B ?r"
    using central_r_bound [OF np False] by (rule poly_B_lower)
  have "z = poly_A ?r * (p - 0.5) / poly_B ?r"
    using assms False np b by (auto simp add: normal_quantile_exact Let_def float_div_def exact_def
        split: if_splits)
  moreover have "0 \<le> poly_A ?r * (p - 0.5) / poly_B ?r"
    using a b assms(1) by (intro divide_nonneg_nonneg mult_nonneg_nonneg) simp_all
  ultimately show ?thesis
    by simp
qed

lemma normal_quantile_exact_symmetric:
  assumes "0 < p" "p < 1" "normal_quantile exact p = Inr z"
  shows "normal_quantile exact (1 - p) = Inr (- z)"
proof -
  consider "p < 0.02425" | "\<not> p < 0.02425" "1 - 0.02425 < p"
    | "\<not> p < 0.02425" "\<not> 1 - 0.02425 < p"
    by blast
  then show ?thesis
  proof cases
    case 1
    have d: "1 \<le> poly_D (sqrt (- 2 * ln p))"
      using neg_two_ln_nonneg [of p] assms by (intro poly_D_ge_one) simp
    show ?thesis
      using assms 1 d by (auto simp add: normal_quantile_exact Let_def float_div_def exact_def)
  next
    case 2
    have d: "1 \<le> poly_D (sqrt (- 2 * ln (1 - p)))"
      using neg_two_ln_nonneg [of "1 - p"] assms by (intro poly_D_ge_one) simp
    show ?thesis
      using assms 2 d by (auto simp add: normal_quantile_exact Let_def float_div_def exact_def)
  next
    case 3
    have b: "1 / 500 \<le> poly_B ((p - 0.5) * (p - 0.5))"
      using central_r_bound [OF 3] by (rule poly_B_lower)
    have sq: "(1 - p - 0.5) * (1 - p - 0.5) = (p - 0.5) * (p - 0.5)"
      by (simp add: algebra_simps)
    have z: "z = poly_A ((p - 0.5) * (p - 0.5)) * (p - 0.5) / poly_B ((p - 0.5) * (p - 0.5))"
      using assms 3 b by (auto simp add: normal_quantile_exact float_div_def exact_def)
    have "normal_quantile exact (1 - p) =
            Inr (poly_A ((p - 0.5) * (p - 0.5)) * (1 - p - 0.5) / poly_B ((p - 0.5) * (p - 0.5)))"
      using assms 3 b unfolding normal_quantile_exact sq
      by (auto simp add: float_div_def exact_def)
    also have "poly_A ((p - 0.5) * (p - 0.5)) * (1 - p - 0.5) / poly_B ((p - 0.5) * (p - 0.5)) = - z"
      unfolding z using b by (simp add: field_simps)
    finally show ?thesis .
  qed
qed

lemma wilson_denom_pos:
  assumes "0 < n"
  shows "0 < 1 + z * z / real_of_int n"
proof -
  have "0 \<le> z * z / real_of_int n"
    using assms by (intro divide_nonneg_nonneg) simp_all
  then show ?thesis
    by linarith
qed

lemma wilson_radicand_nonneg:
  assumes "0 < n" "0 \<le> k" "k \<le> n"
  shows "0 \<le> wilson_radicand z k n"
proof -
  have "real_of_int k / real_of_int n \<le> 1"
    using assms by simp
  moreover have "0 \<le> real_of_int k / real_of_int n"
    using assms by simp
  ultimately have "0 \<le> real_of_int k / real_of_int n * (1 - real_of_int k / real_of_int n)"
    by (intro mult_nonneg_nonneg) simp_all
  moreover have "0 \<le> z * z / (4 * real_of_int n)"
    using assms by (intro divide_nonneg_nonneg) simp_all
  ultimately show ?thesis
    unfolding wilson_radicand_def using assms by (intro divide_nonneg_nonneg) simp_all
qed

lemma wilson_ci_exact:
  assumes "0 < n" "0 \<le> k" "k \<le> n" "0 < conf" "conf < 1"
    and z: "normal_quantile exact (1 - (1 - conf) / 2) = Inr z"
    and big: "n < 2 ^ 1024"
  shows "wilson_ci exact k n conf =
           Inr (max 0 (wilson_center z k n - wilson_half_width z k n),
                min 1 (wilson_center z k n + wilson_half_width z k n))"
proof -
  have d: "1 + z * z / real_of_int n \<noteq> 0"
    using wilson_denom_pos [OF assms(1), of z] by simp
  have r: "\<not> wilson_radicand z k n < 0"
    using wilson_radicand_nonneg [OF assms(1-3), of z] by simp
  have n: "real_of_int n \<noteq> 0"
    using assms(1) by simp
  have "real_of_int n < real_of_int (2 ^ 1024)"
    using big by (simp only: of_int_less_iff)
  then have b: "\<not> 2 ^ 1024 \<le> \<bar>real_of_int n\<bar>"
    using assms(1) by simp
  show ?thesis
    unfolding wilson_ci_def wilson_center_def wilson_half_width_def wilson_radicand_def
    using assms(1-5) d r [unfolded wilson_radicand_def] n b
    by (auto simp add: exact_def z and_then_def float_div_def math_sqrt_def Let_def
        int_to_float_def max_def min_def)
qed

lemma wilson_quantile_exact:
  assumes "0 < conf" "conf < 1"
  obtains z where "normal_quantile exact (1 - (1 - conf) / 2) = Inr z" "0 \<le> z"
proof -
  have p: "1 / 2 \<le> 1 - (1 - conf) / 2" "1 - (1 - conf) / 2 < 1" "0 < 1 - (1 - conf) / 2"
    using assms by simp_all
  obtain z where z: "normal_quantile exact (1 - (1 - conf) / 2) = Inr z"
    using normal_quantile_exact_total [OF p(3) p(2)] by blast
  have "0 \<le> z"
    using p(1) p(2) z by (rule normal_quantile_exact_nonneg)
  with z show ?thesis
    by (rule that)
qed

lemma wilson_brackets_real:
  fixes x m z :: real
  assumes "0 < m" "0 \<le> x" "x \<le> 1" "0 \<le> z"
  shows "\<bar>x - (x + z * z / (2 * m)) / (1 + z * z / m)\<bar>
           \<le> z * sqrt ((x * (1 - x) + z * z / (4 * m)) / m) / (1 + z * z / m)"
proof -
  let ?D = "1 + z * z / m"
  let ?S = "(x * (1 - x) + z * z / (4 * m)) / m"
  have D: "0 < ?D"
    using assms(1) by (simp add: add_pos_nonneg)
  have x1: "0 \<le> x * (1 - x)"
    using assms(2,3) by (intro mult_nonneg_nonneg) simp_all
  have "?S - (z / m * (x - 1 / 2))\<^sup>2 = x * (1 - x) * (1 / m + z * z / (m * m))"
    using assms(1) by (simp add: power2_eq_square field_simps)
  also have "0 \<le> x * (1 - x) * (1 / m + z * z / (m * m))"
  proof -
    have "0 \<le> 1 / m + z * z / (m * m)"
      using assms(1) by (intro add_nonneg_nonneg divide_nonneg_nonneg) simp_all
    with x1 show ?thesis
      by (rule mult_nonneg_nonneg)
  qed
  finally have "(z / m * (x - 1 / 2))\<^sup>2 \<le> ?S"
    by simp
  then have "\<bar>z / m * (x - 1 / 2)\<bar> \<le> sqrt ?S"
    by (metis real_sqrt_abs real_sqrt_le_iff)
  then have "z * \<bar>z / m * (x - 1 / 2)\<bar> \<le> z * sqrt ?S"
    using assms(4) by (rule mult_left_mono)
  then have "\<bar>z * (z / m * (x - 1 / 2))\<bar> \<le> z * sqrt ?S"
    using assms(4) by (simp add: abs_mult)
  then have e: "\<bar>z * (z / m * (x - 1 / 2))\<bar> / ?D \<le> z * sqrt ?S / ?D"
    using D by (intro divide_right_mono) simp_all
  have num: "x * ?D - (x + z * z / (2 * m)) = z * (z / m * (x - 1 / 2))"
    using assms(1) by (simp add: field_simps)
  have "x - (x + z * z / (2 * m)) / ?D = (x * ?D - (x + z * z / (2 * m))) / ?D"
    using D by (simp add: diff_divide_distrib)
  then have eq: "x - (x + z * z / (2 * m)) / ?D = z * (z / m * (x - 1 / 2)) / ?D"
    by (simp only: num)
  have "\<bar>x - (x + z * z / (2 * m)) / ?D\<bar> = \<bar>z * (z / m * (x - 1 / 2)) / ?D\<bar>"
    by (simp only: eq)
  also have "\<dots> = \<bar>z * (z / m * (x - 1 / 2))\<bar> / ?D"
    using D by (simp only: abs_divide abs_of_pos)
  finally show ?thesis
    using e by (rule ord_eq_le_trans)
qed

lemma wilson_brackets:
  assumes "0 < n" "0 \<le> k" "k \<le> n" "0 \<le> z"
  shows "\<bar>of_int k / of_int n - wilson_center z k n\<bar> \<le> wilson_half_width z k n"
  unfolding wilson_center_def wilson_half_width_def wilson_radicand_def
  using assms by (intro wilson_brackets_real) simp_all

lemma wilson_half_width_nonneg:
  assumes "0 < n" "0 \<le> k" "k \<le> n" "0 \<le> z"
  shows "0 \<le> wilson_half_width z k n"
  using wilson_brackets [OF assms] by linarith

lemma wilson_zero_successes:
  assumes "0 < n" "0 \<le> z"
  shows "wilson_center z 0 n - wilson_half_width z 0 n = 0"
proof -
  have "wilson_radicand z 0 n = (z / (2 * of_int n))\<^sup>2"
    using assms(1) by (simp add: wilson_radicand_def power2_eq_square)
  then have "sqrt (wilson_radicand z 0 n) = z / (2 * of_int n)"
    using assms by simp
  then show ?thesis
    by (simp add: wilson_center_def wilson_half_width_def)
qed

lemma wilson_all_successes:
  assumes "0 < n" "0 \<le> z"
  shows "wilson_center z n n + wilson_half_width z n n = 1"
proof -
  let ?m = "real_of_int n"
  have m: "?m \<noteq> 0"
    using assms(1) by simp
  have D: "1 + z * z / ?m \<noteq> 0"
    using wilson_denom_pos [OF assms(1), of z] by simp
  have "wilson_radicand z n n = (z / (2 * ?m))\<^sup>2"
    using assms(1) by (simp add: wilson_radicand_def power2_eq_square)
  then have "sqrt (wilson_radicand z n n) = z / (2 * ?m)"
    using assms by simp
  then have "wilson_center z n n + wilson_half_width z n n
      = (1 + z * z / (2 * ?m) + z * (z / (2 * ?m))) / (1 + z * z / ?m)"
    using m by (simp add: wilson_center_def wilson_half_width_def add_divide_distrib)
  also have "1 + z * z / (2 * ?m) + z * (z / (2 * ?m)) = 1 + z * z / ?m"
    using m by (simp add: field_simps)
  finally show ?thesis
    using D by simp
qed

section \<open>Binary64 arithmetic\<close>

subsection \<open>Evaluating a rounding\<close>

lemma rne_eqI:
  assumes "\<bar>x - of_int m\<bar> < 1 / 2"
  shows "rne x = m"
proof (cases "of_int m \<le> x")
  case True
  then have "\<lfloor>x\<rfloor> = m"
    using assms by (intro floor_unique) (simp_all add: abs_less_iff)
  then show ?thesis
    using assms True by (simp add: rne_def abs_less_iff)
next
  case False
  then have "\<lfloor>x\<rfloor> = m - 1"
    using assms by (intro floor_unique) (simp_all add: abs_less_iff)
  then show ?thesis
    using assms False by (simp add: rne_def abs_less_iff)
qed

lemma rne_tie_down:
  assumes "x = of_int m + 1 / 2" "even m"
  shows "rne x = m"
proof -
  have "\<lfloor>x\<rfloor> = m"
    using assms(1) by (intro floor_unique) simp_all
  then show ?thesis
    using assms by (simp add: rne_def)
qed

lemma rne_tie_up:
  assumes "x = of_int m - 1 / 2" "even m"
  shows "rne x = m"
proof -
  have "\<lfloor>x\<rfloor> = m - 1"
    using assms(1) by (intro floor_unique) simp_all
  then show ?thesis
    using assms by (simp add: rne_def)
qed

lemma floor_log2_eqI:
  assumes "2 powi e \<le> x" "x < 2 powi (e + 1)"
  shows "\<lfloor>log 2 x\<rfloor> = e"
proof -
  have x: "0 < x"
    using assms(1) zero_less_power_int [of "2::real" e] by linarith
  have "(2::real) powr of_int e = 2 powi e" "(2::real) powr (of_int e + 1) = 2 powi (e + 1)"
    using powr_real_of_int' [of "2::real" e] powr_real_of_int' [of "2::real" "e + 1"]
    by simp_all
  then show ?thesis
    using assms x by (simp add: floor_log_eq_powr_iff)
qed

lemma fl64_binade:
  assumes "2 powi e \<le> \<bar>x\<bar>" "\<bar>x\<bar> < 2 powi (e + 1)"
  shows "fl64 x = of_int (rne (x / 2 powi (e - 52))) * 2 powi (e - 52)"
proof -
  have "0 < (2::real) powi e"
    by simp
  then have "0 < \<bar>x\<bar>"
    using assms(1) by linarith
  then have "x \<noteq> 0"
    by simp
  then show ?thesis
    unfolding fl64_def floor_log2_eqI [OF assms] by (simp add: Let_def)
qed

lemma fl64_scaled:
  assumes "2 ^ 52 \<le> \<bar>x\<bar> * 2 ^ n" "\<bar>x\<bar> * 2 ^ n < 2 ^ 53"
  shows "fl64 x = of_int (rne (x * 2 ^ n)) / 2 ^ n"
proof -
  have p: "(2::real) powi (52 - int n) = 2 ^ 52 / 2 ^ n"
    by (simp add: power_int_diff)
  have q: "(2::real) powi (52 - int n + 1) = 2 ^ 53 / 2 ^ n"
    using power_int_diff [of "2::real" 53 "int n"] by (simp add: algebra_simps)
  have s: "(2::real) powi (52 - int n - 52) = 1 / 2 ^ n"
    by (simp add: power_int_minus inverse_eq_divide)
  have "2 powi (52 - int n) \<le> \<bar>x\<bar>" "\<bar>x\<bar> < 2 powi (52 - int n + 1)"
    unfolding p q using assms by (simp_all add: field_simps)
  then have "fl64 x = of_int (rne (x / 2 powi (52 - int n - 52))) * 2 powi (52 - int n - 52)"
    by (rule fl64_binade)
  then show ?thesis
    unfolding s by simp
qed

lemma fl64_eqI:
  assumes "2 ^ 52 \<le> \<bar>x\<bar> * 2 ^ n" "\<bar>x\<bar> * 2 ^ n < 2 ^ 53" "\<bar>x * 2 ^ n - of_int m\<bar> < 1 / 2"
  shows "fl64 x = of_int m / 2 ^ n"
  using fl64_scaled [OF assms(1,2)] rne_eqI [OF assms(3)] by simp

lemma fl64_tie_downI:
  assumes "2 ^ 52 \<le> \<bar>x\<bar> * 2 ^ n" "\<bar>x\<bar> * 2 ^ n < 2 ^ 53"
    and "x * 2 ^ n = of_int m + 1 / 2" "even m"
  shows "fl64 x = of_int m / 2 ^ n"
  using fl64_scaled [OF assms(1,2)] rne_tie_down [OF assms(3,4)] by simp

lemma fl64_tie_upI:
  assumes "2 ^ 52 \<le> \<bar>x\<bar> * 2 ^ n" "\<bar>x\<bar> * 2 ^ n < 2 ^ 53"
    and "x * 2 ^ n = of_int m - 1 / 2" "even m"
  shows "fl64 x = of_int m / 2 ^ n"
  using fl64_scaled [OF assms(1,2)] rne_tie_up [OF assms(3,4)] by simp

lemma fl64_sqrt_eqI:
  assumes "2 ^ 52 < m" "m < 2 ^ 53"
    and "(of_int m - 1 / 2)\<^sup>2 < x * 4 ^ n" "x * 4 ^ n < (of_int m + 1 / 2)\<^sup>2"
  shows "fl64 (sqrt x) = of_int m / 2 ^ n"
proof -
  have "2 ^ 52 + 1 \<le> m"
    using assms(1) by simp
  then have "real_of_int (2 ^ 52 + 1) \<le> real_of_int m"
    by (simp only: of_int_le_iff)
  then have m1: "(2::real) ^ 52 + 1 \<le> of_int m"
    by simp
  have "real_of_int (m + 1) \<le> real_of_int (2 ^ 53)"
    using assms(2) by (simp only: of_int_le_iff)
  then have m2: "real_of_int m + 1 \<le> 2 ^ 53"
    by simp
  have "(4::real) ^ n = (2 ^ n)\<^sup>2"
    by (simp add: power2_eq_square flip: power_mult_distrib)
  then have s: "sqrt (x * 4 ^ n) = sqrt x * 2 ^ n"
    by (simp add: real_sqrt_mult)
  have m0: "0 \<le> real_of_int m - 1 / 2"
    using m1 by simp
  have lo: "of_int m - 1 / 2 < sqrt (x * 4 ^ n)"
    using assms(3) m0 by (simp add: real_less_rsqrt)
  have hi: "sqrt (x * 4 ^ n) < of_int m + 1 / 2"
    using assms(4) m0 by (intro real_less_lsqrt) linarith+
  have big: "(2::real) ^ 52 \<le> sqrt x * 2 ^ n" "sqrt x * 2 ^ n < 2 ^ 53"
    using lo hi m1 m2 unfolding s by simp_all
  have near: "\<bar>sqrt x * 2 ^ n - of_int m\<bar> < 1 / 2"
    using lo hi unfolding s by linarith
  have pos: "0 \<le> sqrt x"
  proof (rule ccontr)
    assume "\<not> 0 \<le> sqrt x"
    then have "sqrt x * 2 ^ n \<le> 0"
      by (simp add: mult_le_0_iff)
    then show False
      using big(1) by simp
  qed
  have a: "\<bar>sqrt x\<bar> = sqrt x"
    using pos by simp
  show ?thesis
    by (rule fl64_eqI) (simp_all only: a big near)
qed

lemma normal_quantile_central_steps:
  assumes "0 < p" "p < 1"
    and "rnd 0.02425 = plow" "rnd (1 - plow) = phigh" "\<not> p < plow" "\<not> phigh < p"
    and "map rnd coeff_a = [a0, a1, a2, a3, a4, a5]"
    and "map rnd coeff_b = [b0, b1, b2, b3, b4]"
    and "rnd (p - 0.5) = q" "rnd (q * q) = r"
    and "rnd (a0 * r) = h1" "rnd (h1 + a1) = h2" "rnd (h2 * r) = h3" "rnd (h3 + a2) = h4"
      "rnd (h4 * r) = h5" "rnd (h5 + a3) = h6" "rnd (h6 * r) = h7" "rnd (h7 + a4) = h8"
      "rnd (h8 * r) = h9" "rnd (h9 + a5) = h10" "rnd (h10 * q) = num"
    and "rnd (b0 * r) = g1" "rnd (g1 + b1) = g2" "rnd (g2 * r) = g3" "rnd (g3 + b2) = g4"
      "rnd (g4 * r) = g5" "rnd (g5 + b3) = g6" "rnd (g6 * r) = g7" "rnd (g7 + b4) = g8"
      "rnd (g8 * r) = g9" "rnd (g9 + 1) = den"
    and "den \<noteq> 0" "rnd (num / den) = z"
  shows "normal_quantile rnd p = Inr z"
  using assms unfolding normal_quantile_def Let_def
  by (simp add: float_div_def)

lemma wilson_ci_steps:
  assumes "0 < n" "0 \<le> k" "k \<le> n" "0 < conf" "conf < 1"
    and "rnd (1 - conf) = alpha" "rnd (alpha / 2) = ha" "rnd (1 - ha) = p"
    and "normal_quantile rnd p = Inr z"
    and "rnd (of_int k / of_int n) = phat" "rnd (z * z) = z2" "rnd (of_int n) = fn"
    and "\<bar>fn\<bar> < 2 ^ 1024" "fn \<noteq> 0" "rnd (z2 / fn) = z2n" "rnd (1 + z2n) = denom"
    and "rnd (2 * fn) = fn2" "fn2 \<noteq> 0" "rnd (z2 / fn2) = z2n2"
    and "rnd (phat + z2n2) = cnum" "denom \<noteq> 0" "rnd (cnum / denom) = center"
    and "rnd (4 * fn) = fn4" "fn4 \<noteq> 0" "rnd (z2 / fn4) = z2n4"
    and "rnd (1 - phat) = om" "rnd (phat * om) = pq" "rnd (pq + z2n4) = vnum"
    and "rnd (vnum / fn) = v" "\<not> v < 0" "rnd (sqrt v) = s"
    and "rnd (z * s) = zs" "rnd (zs / denom) = hw"
    and "rnd (center - hw) = lo" "rnd (center + hw) = hi"
  shows "wilson_ci rnd k n conf = Inr (if 0 < lo then lo else 0, if hi < 1 then hi else 1)"
  using assms unfolding wilson_ci_def Let_def
  by (simp add: float_div_def math_sqrt_def and_then_def int_to_float_def)

lemma wilson_ci_quantile_argument_one:
  assumes "0 < n" "0 \<le> k" "k \<le> n" "0 < conf" "conf < 1"
    and "rnd (1 - conf) = alpha" "rnd (alpha / 2) = ha" "rnd (1 - ha) = 1"
  shows "wilson_ci rnd k n conf = Inl (ValueError ''p must be in (0, 1)'')"
  using assms unfolding wilson_ci_def Let_def
  by (simp add: normal_quantile_def and_then_def)

subsection \<open>\<open>fl64\<close> is a rounding\<close>

lemma rne_near: "\<bar>of_int (rne x) - x\<bar> \<le> 1 / 2"
proof -
  have "of_int \<lfloor>x\<rfloor> \<le> x" "x < of_int \<lfloor>x\<rfloor> + 1"
    by linarith+
  then show ?thesis
    by (simp add: rne_def Let_def abs_le_iff)
qed

lemma rne_of_int: "rne (of_int m) = m"
  by (rule rne_eqI) simp

lemma rne_mono:
  assumes "x \<le> y"
  shows "rne x \<le> rne y"
proof (rule ccontr)
  assume "\<not> rne x \<le> rne y"
  then have "rne y + 1 \<le> rne x"
    by simp
  then have i: "real_of_int (rne y) + 1 \<le> real_of_int (rne x)"
    by (metis of_int_le_iff of_int_add of_int_1)
  have "real_of_int (rne x) - 1 / 2 \<le> x" "y \<le> real_of_int (rne y) + 1 / 2"
    using rne_near [of x] rne_near [of y] by linarith+
  then have "x = y" "x = real_of_int (rne y) + 1 / 2" "x = real_of_int (rne x) - 1 / 2"
    using i assms by linarith+
  then have "rne x = rne y"
    by simp
  then show False
    using \<open>\<not> rne x \<le> rne y\<close> by simp
qed

lemma rne_minus: "rne (- x) = - rne x"
proof (cases "x = of_int \<lfloor>x\<rfloor>")
  case True
  then obtain m where "x = of_int m"
    by blast
  then show ?thesis
    using rne_of_int [of m] rne_of_int [of "- m"] by simp
next
  case False
  then have f: "\<lfloor>- x\<rfloor> = - \<lfloor>x\<rfloor> - 1"
    by (simp add: floor_minus ceiling_altdef)
  have "of_int \<lfloor>x\<rfloor> \<le> x" "x < of_int \<lfloor>x\<rfloor> + 1"
    by linarith+
  then show ?thesis
    unfolding rne_def Let_def f by auto
qed


lemma binade:
  assumes "x \<noteq> 0"
  shows "2 powi \<lfloor>log 2 \<bar>x\<bar>\<rfloor> \<le> \<bar>x\<bar>" "\<bar>x\<bar> < 2 powi (\<lfloor>log 2 \<bar>x\<bar>\<rfloor> + 1)"
proof -
  let ?e = "\<lfloor>log 2 \<bar>x\<bar>\<rfloor>"
  have p: "(2::real) powr of_int ?e = 2 powi ?e" "(2::real) powr (of_int ?e + 1) = 2 powi (?e + 1)"
    using powr_real_of_int' [of "2::real" ?e] powr_real_of_int' [of "2::real" "?e + 1"]
    by simp_all
  have "2 powr of_int ?e \<le> \<bar>x\<bar> \<and> \<bar>x\<bar> < 2 powr (of_int ?e + 1)"
    using assms floor_log_eq_powr_iff [of "\<bar>x\<bar>" 2 ?e] by simp
  then show "2 powi ?e \<le> \<bar>x\<bar>" "\<bar>x\<bar> < 2 powi (?e + 1)"
    unfolding p by simp_all
qed

lemma fl64_nonzero:
  assumes "x \<noteq> 0"
  shows "fl64 x = of_int (rne (x / 2 powi (\<lfloor>log 2 \<bar>x\<bar>\<rfloor> - 52))) * 2 powi (\<lfloor>log 2 \<bar>x\<bar>\<rfloor> - 52)"
  using assms by (simp add: fl64_def Let_def)

lemma powi_split: "(2::real) powi e = 2 powi (e - 52) * 2 ^ 52"
  using power_int_add [of "2::real" "e - 52" 52] by simp

lemma powi_split53: "(2::real) powi (e + 1) = 2 powi (e - 52) * 2 ^ 53"
  using power_int_add [of "2::real" "e - 52" 53] by (simp add: ac_simps)

lemma fl64_error: "\<bar>fl64 x - x\<bar> \<le> \<bar>x\<bar> / 2 ^ 53"
proof (cases "x = 0")
  case True
  then show ?thesis
    by (simp add: fl64_def)
next
  case False
  let ?e = "\<lfloor>log 2 \<bar>x\<bar>\<rfloor>"
  let ?s = "(2::real) powi (?e - 52)"
  have s: "0 < ?s"
    by simp
  have "fl64 x - x = (of_int (rne (x / ?s)) - x / ?s) * ?s"
    using s by (simp add: fl64_nonzero [OF False] algebra_simps)
  then have "\<bar>fl64 x - x\<bar> = \<bar>of_int (rne (x / ?s)) - x / ?s\<bar> * ?s"
    using s by (simp add: abs_mult)
  also have "\<dots> \<le> 1 / 2 * ?s"
    using rne_near [of "x / ?s"] s by (intro mult_right_mono) simp_all
  also have "\<dots> = (?s * 2 ^ 52) / 2 ^ 53"
    by simp
  also have "\<dots> \<le> \<bar>x\<bar> / 2 ^ 53"
    using binade(1) [OF False] unfolding powi_split [of ?e]
    by (intro divide_right_mono) simp_all
  finally show ?thesis .
qed

lemma fl64_fixes:
  assumes "\<bar>m\<bar> < 2 ^ 53"
  shows "fl64 (of_int m * 2 powi j) = of_int m * 2 powi j"
proof (cases "m = 0")
  case True
  then show ?thesis
    by (simp add: fl64_def)
next
  case False
  let ?x = "real_of_int m * 2 powi j"
  have x0: "?x \<noteq> 0"
    using False by simp
  let ?e = "\<lfloor>log 2 \<bar>?x\<bar>\<rfloor>"
  let ?t = "j - (?e - 52)"
  have scaled: "?x / 2 powi (?e - 52) = of_int m * 2 powi ?t"
    by (simp add: power_int_diff)
  have lower: "2 ^ 52 \<le> \<bar>real_of_int m\<bar> * 2 powi ?t"
  proof -
    have "2 powi (?e - 52) * 2 ^ 52 \<le> \<bar>?x\<bar>"
      using binade(1) [OF x0] unfolding powi_split [of ?e] .
    then have "2 ^ 52 \<le> \<bar>?x\<bar> / 2 powi (?e - 52)"
      by (simp add: field_simps)
    also have "\<bar>?x\<bar> / 2 powi (?e - 52) = \<bar>real_of_int m\<bar> * 2 powi ?t"
      by (simp add: abs_mult power_int_diff)
    finally show ?thesis .
  qed
  have t: "0 \<le> ?t"
  proof (rule ccontr)
    assume "\<not> 0 \<le> ?t"
    then have "?t \<le> - 1"
      by simp
    then have "(2::real) powi ?t \<le> 2 powi (- 1)"
      by (intro power_int_increasing) simp_all
    then have "(2::real) powi ?t \<le> 1 / 2"
      by (simp add: power_int_minus)
    moreover have "\<bar>real_of_int m\<bar> \<le> 2 ^ 53 - 1"
    proof -
      have "\<bar>m\<bar> \<le> 2 ^ 53 - 1"
        using assms by simp
      then have "real_of_int \<bar>m\<bar> \<le> real_of_int (2 ^ 53 - 1)"
        by (simp only: of_int_le_iff)
      then show ?thesis
        by simp
    qed
    ultimately have "\<bar>real_of_int m\<bar> * 2 powi ?t \<le> (2 ^ 53 - 1) * (1 / 2)"
      by (intro mult_mono) simp_all
    then show False
      using lower by simp
  qed
  have "real_of_int m * 2 powi ?t = of_int (m * 2 ^ nat ?t)"
    using t by (simp add: power_int_def)
  then have "rne (?x / 2 powi (?e - 52)) = m * 2 ^ nat ?t"
    unfolding scaled by (simp only: rne_of_int)
  then have "fl64 ?x = of_int (m * 2 ^ nat ?t) * 2 powi (?e - 52)"
    unfolding fl64_nonzero [OF x0] by simp
  also have "\<dots> = (real_of_int m * 2 powi ?t) * 2 powi (?e - 52)"
    using t by (simp add: power_int_def)
  also have "\<dots> = ?x"
    by (simp add: power_int_diff)
  finally show ?thesis .
qed


lemma fl64_minus: "fl64 (- x) = - fl64 x"
  by (simp add: fl64_def Let_def rne_minus)

lemma fl64_nonneg:
  assumes "0 \<le> x"
  shows "0 \<le> fl64 x"
proof -
  have "x / 2 ^ 53 \<le> x"
    using assms by (simp add: field_simps)
  moreover have "\<bar>fl64 x - x\<bar> \<le> x / 2 ^ 53"
    using fl64_error [of x] assms by simp
  ultimately show ?thesis
    by linarith
qed

lemma fl64_binade_bounds:
  assumes "2 powi e \<le> x" "x < 2 powi (e + 1)"
  shows "2 powi e \<le> fl64 x" "fl64 x \<le> 2 powi (e + 1)"
proof -
  let ?s = "(2::real) powi (e - 52)"
  have s: "0 < ?s"
    by simp
  have x: "0 < x"
    using assms(1) zero_less_power_int [of "2::real" e] by linarith
  have f: "fl64 x = of_int (rne (x / ?s)) * ?s"
    using assms x by (intro fl64_binade) simp_all
  have "real_of_int (2 ^ 52) \<le> x / ?s"
    using assms(1) s unfolding powi_split [of e] by (simp add: field_simps)
  then have "rne (real_of_int (2 ^ 52)) \<le> rne (x / ?s)"
    by (rule rne_mono)
  then have "real_of_int (2 ^ 52) \<le> real_of_int (rne (x / ?s))"
    unfolding rne_of_int by (simp only: of_int_le_iff)
  then have "2 ^ 52 * ?s \<le> real_of_int (rne (x / ?s)) * ?s"
    using s by (intro mult_right_mono) simp_all
  then show "2 powi e \<le> fl64 x"
    unfolding f powi_split [of e] by (simp add: mult.commute)
  have "x / ?s \<le> real_of_int (2 ^ 53)"
    using assms(2) s unfolding powi_split53 [of e] by (simp add: field_simps)
  then have "rne (x / ?s) \<le> rne (real_of_int (2 ^ 53))"
    by (rule rne_mono)
  then have "real_of_int (rne (x / ?s)) \<le> real_of_int (2 ^ 53)"
    unfolding rne_of_int by (simp only: of_int_le_iff)
  then have "real_of_int (rne (x / ?s)) * ?s \<le> 2 ^ 53 * ?s"
    using s by (intro mult_right_mono) simp_all
  then show "fl64 x \<le> 2 powi (e + 1)"
    unfolding f powi_split53 [of e] by (simp add: mult.commute)
qed

lemma fl64_mono_pos:
  assumes "0 < x" "x \<le> y"
  shows "fl64 x \<le> fl64 y"
proof -
  let ?ex = "\<lfloor>log 2 \<bar>x\<bar>\<rfloor>" and ?ey = "\<lfloor>log 2 \<bar>y\<bar>\<rfloor>"
  have y: "0 < y"
    using assms by simp
  have bx: "2 powi ?ex \<le> x" "x < 2 powi (?ex + 1)"
    using binade [of x] assms(1) by simp_all
  have b2: "2 powi ?ey \<le> y" "y < 2 powi (?ey + 1)"
    using binade [of y] y by simp_all
  have "log 2 x \<le> log 2 y"
    using assms by simp
  then have le: "?ex \<le> ?ey"
    using assms y by (simp add: floor_mono)
  show ?thesis
  proof (cases "?ex = ?ey")
    case True
    let ?s = "(2::real) powi (?ex - 52)"
    have "x / ?s \<le> y / ?s"
      using assms(2) by (simp add: divide_right_mono)
    then have "rne (x / ?s) \<le> rne (y / ?s)"
      by (rule rne_mono)
    then have "real_of_int (rne (x / ?s)) * ?s \<le> real_of_int (rne (y / ?s)) * ?s"
      by (intro mult_right_mono) simp_all
    then show ?thesis
      using fl64_nonzero [of x] fl64_nonzero [of y] assms(1) y True by simp
  next
    case False
    then have "?ex + 1 \<le> ?ey"
      using le by simp
    then have "(2::real) powi (?ex + 1) \<le> 2 powi ?ey"
      by (intro power_int_increasing) simp_all
    then show ?thesis
      using fl64_binade_bounds(2) [OF bx] fl64_binade_bounds(1) [OF b2] by linarith
  qed
qed

lemma fl64_mono:
  assumes "x \<le> y"
  shows "fl64 x \<le> fl64 y"
proof -
  consider "0 < x" | "x \<le> 0" "0 \<le> y" | "y < 0"
    using assms by linarith
  then show ?thesis
  proof cases
    case 1
    then show ?thesis
      using assms by (rule fl64_mono_pos)
  next
    case 2
    have "0 \<le> fl64 y" "0 \<le> fl64 (- x)"
      using 2 by (simp_all add: fl64_nonneg)
    then show ?thesis
      by (simp add: fl64_minus)
  next
    case 3
    then have "fl64 (- y) \<le> fl64 (- x)"
      using assms by (intro fl64_mono_pos) simp_all
    then show ?thesis
      by (simp add: fl64_minus)
  qed
qed

lemma rounding_exact: "rounding exact"
  by (simp add: rounding_def exact_def)

lemma rounding_fl64: "rounding fl64"
  unfolding rounding_def using fl64_mono fl64_error fl64_fixes by blast

section \<open>Arithmetic with any rounding\<close>

subsection \<open>Bounds from the three properties\<close>

declare horner_rnd.simps [simp del]

lemma rnd_mono: "rounding rnd \<Longrightarrow> x \<le> y \<Longrightarrow> rnd x \<le> rnd y"
  by (simp add: rounding_def)

lemma rnd_error: "rounding rnd \<Longrightarrow> \<bar>rnd x - x\<bar> \<le> \<bar>x\<bar> / 2 ^ 53"
  by (simp add: rounding_def)

lemma rnd_int:
  assumes "rounding rnd" "\<bar>m\<bar> < 2 ^ 53"
  shows "rnd (of_int m) = of_int m"
  using assms unfolding rounding_def by (metis mult.right_neutral power_int_0_right)

lemma rnd_dyadic:
  assumes "rounding rnd" "\<bar>m\<bar> < 2 ^ 53"
  shows "rnd (of_int m / 2 ^ j) = of_int m / 2 ^ j"
proof -
  have "rnd (of_int m * 2 powi (- int j)) = of_int m * 2 powi (- int j)"
    using assms unfolding rounding_def by blast
  then show ?thesis
    by (simp add: power_int_minus divide_inverse)
qed

lemma rnd_0: "rounding rnd \<Longrightarrow> rnd 0 = 0"
  using rnd_int [of rnd 0] by simp

lemma rnd_1: "rounding rnd \<Longrightarrow> rnd 1 = 1"
  using rnd_int [of rnd 1] by simp

lemma rnd_nonneg: "rounding rnd \<Longrightarrow> 0 \<le> x \<Longrightarrow> 0 \<le> rnd x"
  using rnd_mono [of rnd 0 x] rnd_0 [of rnd] by simp

lemma rnd_nonpos: "rounding rnd \<Longrightarrow> x \<le> 0 \<Longrightarrow> rnd x \<le> 0"
  using rnd_mono [of rnd x 0] rnd_0 [of rnd] by simp

lemma rnd_ge_one: "rounding rnd \<Longrightarrow> 1 \<le> x \<Longrightarrow> 1 \<le> rnd x"
  using rnd_mono [of rnd 1 x] rnd_1 [of rnd] by simp

lemma rnd_le_one: "rounding rnd \<Longrightarrow> x \<le> 1 \<Longrightarrow> rnd x \<le> 1"
  using rnd_mono [of rnd x 1] rnd_1 [of rnd] by simp

lemma rnd_pos:
  assumes "rounding rnd" "0 < x"
  shows "0 < rnd x"
proof -
  have "x / 2 ^ 53 < x"
    using assms(2) by (simp add: field_simps)
  moreover have "\<bar>rnd x - x\<bar> \<le> x / 2 ^ 53"
    using rnd_error [OF assms(1), of x] assms(2) by simp
  ultimately show ?thesis
    by linarith
qed

lemma rnd_crude:
  assumes "rounding rnd"
  shows "\<bar>rnd x - x\<bar> \<le> \<bar>x\<bar> / 10 ^ 6"
proof -
  have "\<bar>x\<bar> / 2 ^ 53 \<le> \<bar>x\<bar> / 10 ^ 6"
    by (intro divide_left_mono) simp_all
  then show ?thesis
    using rnd_error [OF assms, of x] by linarith
qed

lemma rnd_le_dyadic:
  assumes "rounding rnd" "x \<le> of_int m / 2 ^ j" "\<bar>m\<bar> < 2 ^ 53"
  shows "rnd x \<le> of_int m / 2 ^ j"
  using rnd_mono [OF assms(1,2)] rnd_dyadic [OF assms(1,3)] by simp

lemma rnd_ge_dyadic:
  assumes "rounding rnd" "of_int m / 2 ^ j \<le> x" "\<bar>m\<bar> < 2 ^ 53"
  shows "of_int m / 2 ^ j \<le> rnd x"
  using rnd_mono [OF assms(1,2)] rnd_dyadic [OF assms(1,3)] by simp

lemma horner_step:
  assumes r: "rounding rnd"
    and x: "0 \<le> x" "x \<le> 1 / 4"
    and c: "\<bar>c\<bar> \<le> 300"
    and t: "\<bar>t - e\<bar> \<le> d" "\<bar>e\<bar> \<le> 400" "0 \<le> d" "d \<le> 1"
  shows "\<bar>rnd (rnd (t * x) + rnd c) - (e * x + c)\<bar> \<le> d + 1 / 2 ^ 43"
    and "\<bar>e * x + c\<bar> \<le> 400"
proof -
  define u :: real where "u = 1 / 2 ^ 53"
  have u: "0 < u" "803 * u \<le> 1 / 2 ^ 43"
    by (simp_all add: u_def)
  have err: "\<bar>rnd y - y\<bar> \<le> \<bar>y\<bar> * u" for y
    using rnd_error [OF r, of y] by (simp add: u_def)
  have tb: "\<bar>t\<bar> \<le> 401"
    using t by linarith
  have tx: "\<bar>t * x\<bar> \<le> 401 / 4"
  proof -
    have "\<bar>t\<bar> * \<bar>x\<bar> \<le> 401 * (1 / 4)"
      using tb x by (intro mult_mono) simp_all
    then show ?thesis
      by (simp add: abs_mult)
  qed
  have ex: "\<bar>t * x - e * x\<bar> \<le> d / 4"
  proof -
    have "\<bar>t - e\<bar> * \<bar>x\<bar> \<le> d * (1 / 4)"
      using t x by (intro mult_mono) simp_all
    then show ?thesis
      by (simp add: abs_mult left_diff_distrib [symmetric])
  qed
  have "\<bar>t * x\<bar> * u \<le> 401 / 4 * u"
    using tx u(1) by (intro mult_right_mono) simp_all
  then have e1: "\<bar>rnd (t * x) - t * x\<bar> \<le> 401 / 4 * u"
    using err [of "t * x"] by linarith
  have "\<bar>c\<bar> * u \<le> 300 * u"
    using c u(1) by (intro mult_right_mono) simp_all
  then have e2: "\<bar>rnd c - c\<bar> \<le> 300 * u"
    using err [of c] by linarith
  show eb: "\<bar>e * x + c\<bar> \<le> 400"
  proof -
    have "\<bar>e\<bar> * \<bar>x\<bar> \<le> 400 * (1 / 4)"
      using t x by (intro mult_mono) simp_all
    then have "\<bar>e * x\<bar> \<le> 100"
      by (simp add: abs_mult)
    then show ?thesis
      using c by linarith
  qed
  let ?s = "rnd (t * x) + rnd c"
  have s1: "\<bar>?s - (e * x + c)\<bar> \<le> d / 4 + 401 * u"
    using ex e1 e2 u(1) by linarith
  have "u \<le> 1 / 401"
    by (simp add: u_def)
  then have "\<bar>?s\<bar> \<le> 402"
    using s1 eb t(4) by linarith
  then have "\<bar>?s\<bar> * u \<le> 402 * u"
    using u(1) by (intro mult_right_mono) simp_all
  then have e3: "\<bar>rnd ?s - ?s\<bar> \<le> 402 * u"
    using err [of ?s] by linarith
  have "\<bar>rnd ?s - (e * x + c)\<bar> \<le> d / 4 + 803 * u"
    using s1 e3 by linarith
  then show "\<bar>rnd ?s - (e * x + c)\<bar> \<le> d + 1 / 2 ^ 43"
    using t(3) u(2) by linarith
qed

lemma horner_exact_Cons:
  "horner_rnd exact x e (c # cs) = horner_rnd exact x (e * x + c) cs"
  by (simp only: horner_rnd.simps exact_def)

lemma horner_error:
  assumes "rounding rnd" "0 \<le> x" "x \<le> 1 / 4" "\<forall>c\<in>set cs. \<bar>c\<bar> \<le> 300"
    and "\<bar>t - e\<bar> \<le> d" "\<bar>e\<bar> \<le> 400" "0 \<le> d" "d + real (length cs) / 2 ^ 43 \<le> 1"
  shows "\<bar>horner_rnd rnd x t cs - horner_rnd exact x e cs\<bar> \<le> d + real (length cs) / 2 ^ 43"
  using assms(4-)
proof (induction cs arbitrary: t e d)
  case Nil
  then show ?case
    by (simp add: horner_rnd.simps)
next
  case (Cons c cs)
  have "0 \<le> real (length (c # cs)) / 2 ^ 43"
    by simp
  then have d1: "d \<le> 1"
    using Cons.prems(5) by linarith
  have c: "\<bar>c\<bar> \<le> 300"
    using Cons.prems(1) by simp
  note st = horner_step [OF assms(1-3) c Cons.prems(2,3,4) d1]
  have "\<bar>horner_rnd rnd x (rnd (rnd (t * x) + rnd c)) cs - horner_rnd exact x (e * x + c) cs\<bar>
          \<le> (d + 1 / 2 ^ 43) + real (length cs) / 2 ^ 43"
  proof (rule Cons.IH)
    show "\<forall>c\<in>set cs. \<bar>c\<bar> \<le> 300"
      using Cons.prems(1) by simp
    show "\<bar>rnd (rnd (t * x) + rnd c) - (e * x + c)\<bar> \<le> d + 1 / 2 ^ 43"
      by (rule st(1))
    show "\<bar>e * x + c\<bar> \<le> 400"
      by (rule st(2))
    show "0 \<le> d + 1 / 2 ^ 43"
      using Cons.prems(4) by simp
    show "d + 1 / 2 ^ 43 + real (length cs) / 2 ^ 43 \<le> 1"
      using Cons.prems(5) by (simp add: field_simps)
  qed
  then show ?case
    unfolding horner_exact_Cons horner_rnd.simps(2) [of rnd] by (simp add: field_simps)
qed

subsection \<open>The quantile and the interval\<close>

lemma horner_exact_A:
  "horner_rnd exact r (- 39.69683028665376)
     [220.9460984245205, - 275.9285104469687, 138.3577518672690, - 30.66479806614716,
      2.506628277459239] = poly_A r"
  by (simp only: horner_exact_Cons horner_rnd.simps(1) poly_A_def coeff_a_def)
    (simp add: algebra_simps)

lemma horner_exact_B:
  "horner_rnd exact r (- 54.47609879822406)
     [161.5858368580409, - 155.6989798598866, 66.80131188771972, - 13.28068155288572, 1]
     = poly_B r"
  by (simp only: horner_exact_Cons horner_rnd.simps(1) poly_B_def coeff_b_def)
    (simp add: algebra_simps)

lemma central_num_rnd:
  assumes "rounding rnd" "0 \<le> r" "r \<le> 227 / 1000"
  shows "1 / 200 \<le> horner_rnd rnd r (rnd (- 39.69683028665376))
     [220.9460984245205, - 275.9285104469687, 138.3577518672690, - 30.66479806614716,
      2.506628277459239]"
proof -
  let ?cs = "[220.9460984245205, - 275.9285104469687, 138.3577518672690, - 30.66479806614716,
      2.506628277459239 :: real]"
  define h where "h = horner_rnd rnd r (rnd (- 39.69683028665376)) ?cs"
  have d: "\<bar>rnd (- 39.69683028665376) - (- 39.69683028665376)\<bar> \<le> 1 / 2 ^ 43"
    using rnd_error [OF assms(1), of "- 39.69683028665376"] by simp
  have "\<bar>h - horner_rnd exact r (- 39.69683028665376) ?cs\<bar>
          \<le> 1 / 2 ^ 43 + real (length ?cs) / 2 ^ 43"
    unfolding h_def using assms(2,3) d by (intro horner_error [OF assms(1)]) simp_all
  then have "\<bar>h - poly_A r\<bar> \<le> 1 / 200"
    unfolding horner_exact_A by simp
  moreover have "1 / 100 \<le> poly_A r"
    using assms(2,3) by (rule poly_A_lower)
  ultimately have "1 / 200 \<le> h"
    by linarith
  then show ?thesis
    unfolding h_def .
qed

lemma central_den_rnd:
  assumes "rounding rnd" "0 \<le> r" "r \<le> 227 / 1000"
  shows "1 / 1000 \<le> horner_rnd rnd r (rnd (- 54.47609879822406))
     [161.5858368580409, - 155.6989798598866, 66.80131188771972, - 13.28068155288572, 1]"
proof -
  let ?cs = "[161.5858368580409, - 155.6989798598866, 66.80131188771972, - 13.28068155288572,
      1 :: real]"
  define h where "h = horner_rnd rnd r (rnd (- 54.47609879822406)) ?cs"
  have d: "\<bar>rnd (- 54.47609879822406) - (- 54.47609879822406)\<bar> \<le> 1 / 2 ^ 43"
    using rnd_error [OF assms(1), of "- 54.47609879822406"] by simp
  have "\<bar>h - horner_rnd exact r (- 54.47609879822406) ?cs\<bar>
          \<le> 1 / 2 ^ 43 + real (length ?cs) / 2 ^ 43"
    unfolding h_def using assms(2,3) d by (intro horner_error [OF assms(1)]) simp_all
  then have "\<bar>h - poly_B r\<bar> \<le> 1 / 1000"
    unfolding horner_exact_B by simp
  moreover have "1 / 500 \<le> poly_B r"
    using assms(2,3) by (rule poly_B_lower)
  ultimately have "1 / 1000 \<le> h"
    by linarith
  then show ?thesis
    unfolding h_def .
qed

lemma breakpoints_rnd:
  assumes "rounding rnd"
  shows "242 / 10000 \<le> rnd 0.02425" "rnd 0.02425 \<le> 243 / 10000"
    "9756 / 10000 \<le> rnd (1 - rnd 0.02425)" "rnd (1 - rnd 0.02425) \<le> 97581 / 100000"
proof -
  define pl where "pl = rnd 0.02425"
  define ph where "ph = rnd (1 - pl)"
  have "\<bar>pl - 0.02425\<bar> \<le> \<bar>0.02425\<bar> / 10 ^ 6"
    unfolding pl_def using assms by (rule rnd_crude)
  then have 1: "\<bar>pl - 2425 / 100000\<bar> \<le> 1 / 10000000"
    by simp
  then have a: "242 / 10000 \<le> pl" "pl \<le> 243 / 10000"
    by linarith+
  have "\<bar>ph - (1 - pl)\<bar> \<le> \<bar>1 - pl\<bar> / 10 ^ 6"
    unfolding ph_def using assms by (rule rnd_crude)
  moreover have "\<bar>1 - pl\<bar> / 10 ^ 6 \<le> 1 / 1000000"
    using a by simp
  ultimately have 2: "\<bar>ph - (1 - pl)\<bar> \<le> 1 / 1000000"
    by linarith
  have b: "9756 / 10000 \<le> ph" "ph \<le> 97581 / 100000"
    using 1 2 by linarith+
  show "242 / 10000 \<le> rnd 0.02425" "rnd 0.02425 \<le> 243 / 10000"
    "9756 / 10000 \<le> rnd (1 - rnd 0.02425)" "rnd (1 - rnd 0.02425) \<le> 97581 / 100000"
    using a b unfolding ph_def pl_def by blast+
qed

lemma abs_rnd_crude:
  assumes "rounding rnd" "\<bar>x\<bar> \<le> b" "b \<le> 1"
  shows "\<bar>rnd x\<bar> \<le> b + 1 / 10 ^ 6"
proof -
  have "\<bar>rnd x - x\<bar> \<le> \<bar>x\<bar> / 10 ^ 6"
    using assms(1) by (rule rnd_crude)
  also have "\<dots> \<le> 1 / 10 ^ 6"
    using assms(2,3) by (intro divide_right_mono) simp_all
  finally show ?thesis
    using assms(2) by linarith
qed

lemma central_r_rnd:
  assumes "rounding rnd" "\<not> p < rnd 0.02425" "\<not> rnd (1 - rnd 0.02425) < p"
  shows "0 \<le> rnd (rnd (p - 0.5) * rnd (p - 0.5))"
    "rnd (rnd (p - 0.5) * rnd (p - 0.5)) \<le> 227 / 1000"
proof -
  define q where "q = rnd (p - 0.5)"
  show "0 \<le> rnd (rnd (p - 0.5) * rnd (p - 0.5))"
    by (rule rnd_nonneg [OF assms(1)]) simp
  have "242 / 10000 \<le> p" "p \<le> 97581 / 100000"
    using breakpoints_rnd(1,4) [OF assms(1)] assms(2,3) by linarith+
  then have "p - 0.5 \<le> 47581 / 100000" "- (p - 0.5) \<le> 47581 / 100000"
    by simp_all
  then have p: "\<bar>p - 0.5\<bar> \<le> 47581 / 100000"
    by (rule abs_leI)
  have "\<bar>q\<bar> \<le> 47581 / 100000 + 1 / 10 ^ 6"
    unfolding q_def using p by (intro abs_rnd_crude [OF assms(1)]) simp_all
  then have q: "\<bar>q\<bar> \<le> 47582 / 100000"
    by simp
  have "\<bar>q\<bar> * \<bar>q\<bar> \<le> 47582 / 100000 * (47582 / 100000)"
    using q by (intro mult_mono) simp_all
  then have "\<bar>q * q\<bar> \<le> 47582 / 100000 * (47582 / 100000)"
    by (simp only: abs_mult)
  then have "\<bar>q * q\<bar> \<le> 2265 / 10000"
    by simp
  then have "\<bar>rnd (q * q)\<bar> \<le> 2265 / 10000 + 1 / 10 ^ 6"
    by (intro abs_rnd_crude [OF assms(1)]) simp_all
  then have "rnd (q * q) \<le> 227 / 1000"
    by (simp add: abs_le_iff)
  then show "rnd (rnd (p - 0.5) * rnd (p - 0.5)) \<le> 227 / 1000"
    unfolding q_def .
qed

lemma normal_quantile_central_rnd:
  assumes "rounding rnd" "0 < p" "p < 1" "\<not> p < rnd 0.02425" "\<not> rnd (1 - rnd 0.02425) < p"
  shows "normal_quantile rnd p =
    float_div rnd
      (rnd (horner_rnd rnd (rnd (rnd (p - 0.5) * rnd (p - 0.5))) (rnd (- 39.69683028665376))
         [220.9460984245205, - 275.9285104469687, 138.3577518672690, - 30.66479806614716,
          2.506628277459239] * rnd (p - 0.5)))
      (horner_rnd rnd (rnd (rnd (p - 0.5) * rnd (p - 0.5))) (rnd (- 54.47609879822406))
         [161.5858368580409, - 155.6989798598866, 66.80131188771972, - 13.28068155288572, 1])"
  using assms rnd_1 [of rnd] unfolding normal_quantile_def Let_def coeff_a_def coeff_b_def
  by (simp add: horner_rnd.simps)




lemma normal_quantile_lower_rnd:
  assumes "0 < p" "p < 1" "p < rnd 0.02425"
  shows "normal_quantile rnd p =
    and_then (math_log rnd p) (\<lambda>l.
    and_then (math_sqrt rnd (rnd (- 2 * l))) (\<lambda>q.
      float_div rnd (tail_num rnd (map rnd coeff_c) q) (tail_den rnd (map rnd coeff_d) q)))"
  using assms unfolding normal_quantile_def Let_def tail_num_def tail_den_def
  by simp

lemma normal_quantile_upper_rnd:
  assumes "0 < p" "p < 1" "\<not> p < rnd 0.02425" "rnd (1 - rnd 0.02425) < p"
  shows "normal_quantile rnd p =
    and_then (math_log rnd (rnd (1 - p))) (\<lambda>l.
    and_then (math_sqrt rnd (rnd (- 2 * l))) (\<lambda>q.
      float_div rnd (- tail_num rnd (map rnd coeff_c) q) (tail_den rnd (map rnd coeff_d) q)))"
  using assms unfolding normal_quantile_def Let_def tail_num_def tail_den_def
  by simp

lemma tail_den_ge_one:
  assumes r: "rounding rnd" and q: "0 \<le> q"
  shows "1 \<le> tail_den rnd (map rnd coeff_d) q"
proof -
  define d0 where "d0 = rnd (coeff_d ! 0)"
  define d1 where "d1 = rnd (coeff_d ! 1)"
  define d2 where "d2 = rnd (coeff_d ! 2)"
  define d3 where "d3 = rnd (coeff_d ! 3)"
  have m: "map rnd coeff_d = [d0, d1, d2, d3]"
    by (simp add: coeff_d_def d0_def d1_def d2_def d3_def)
  have nn: "0 \<le> d0" "0 \<le> d1" "0 \<le> d2" "0 \<le> d3"
    unfolding d0_def d1_def d2_def d3_def
    by (rule rnd_nonneg [OF r], simp add: coeff_d_def)+
  have g7: "0 \<le> rnd (rnd (rnd (rnd (rnd (rnd (rnd (d0 * q) + d1) * q) + d2) * q) + d3) * q)"
    using nn q by (intro rnd_nonneg [OF r] add_nonneg_nonneg mult_nonneg_nonneg)
  have "1 \<le> rnd (rnd (rnd (rnd (rnd (rnd (rnd (rnd (d0 * q) + d1) * q) + d2) * q) + d3) * q) + 1)"
    using g7 by (intro rnd_ge_one [OF r]) simp
  then show ?thesis
    unfolding tail_den_def m by simp
qed

lemma tail_num_neg:
  assumes r: "rounding rnd" and q: "39 / 16 \<le> q"
  shows "tail_num rnd (map rnd coeff_c) q < 0"
proof -
  define c0 where "c0 = rnd (coeff_c ! 0)"
  define c1 where "c1 = rnd (coeff_c ! 1)"
  define c2 where "c2 = rnd (coeff_c ! 2)"
  define c3 where "c3 = rnd (coeff_c ! 3)"
  define c4 where "c4 = rnd (coeff_c ! 4)"
  define c5 where "c5 = rnd (coeff_c ! 5)"
  have m: "map rnd coeff_c = [c0, c1, c2, c3, c4, c5]"
    by (simp add: coeff_c_def c0_def c1_def c2_def c3_def c4_def c5_def)
  have q0: "0 \<le> q"
    using q by simp
  have np: "c0 \<le> 0" "c1 \<le> 0" "c2 \<le> 0"
    unfolding c0_def c1_def c2_def
    by (rule rnd_nonpos [OF r], simp add: coeff_c_def)+
  have "c3 \<le> of_int (- 5) / 2 ^ 1"
    unfolding c3_def by (rule rnd_le_dyadic [OF r]) (simp_all add: coeff_c_def)
  then have c3: "c3 \<le> - (5 / 2)"
    by simp
  have "c4 \<le> of_int 35 / 2 ^ 3"
    unfolding c4_def by (rule rnd_le_dyadic [OF r]) (simp_all add: coeff_c_def)
  then have c4: "c4 \<le> 35 / 8"
    by simp
  have "c5 \<le> of_int 3 / 2 ^ 0"
    unfolding c5_def by (rule rnd_le_dyadic [OF r]) (simp_all add: coeff_c_def)
  then have c5: "c5 \<le> 3"
    by simp
  define h1 where "h1 = rnd (c0 * q)"
  define h2 where "h2 = rnd (h1 + c1)"
  define h3 where "h3 = rnd (h2 * q)"
  define h4 where "h4 = rnd (h3 + c2)"
  define h5 where "h5 = rnd (h4 * q)"
  define h6 where "h6 = rnd (h5 + c3)"
  define h7 where "h7 = rnd (h6 * q)"
  define h8 where "h8 = rnd (h7 + c4)"
  define h9 where "h9 = rnd (h8 * q)"
  define h10 where "h10 = rnd (h9 + c5)"
  have h1: "h1 \<le> 0"
    unfolding h1_def using np q0 by (intro rnd_nonpos [OF r] mult_nonpos_nonneg)
  have h2: "h2 \<le> 0"
    unfolding h2_def using h1 np by (intro rnd_nonpos [OF r] add_nonpos_nonpos)
  have h3: "h3 \<le> 0"
    unfolding h3_def using h2 q0 by (intro rnd_nonpos [OF r] mult_nonpos_nonneg)
  have h4: "h4 \<le> 0"
    unfolding h4_def using h3 np by (intro rnd_nonpos [OF r] add_nonpos_nonpos)
  have h5: "h5 \<le> 0"
    unfolding h5_def using h4 q0 by (intro rnd_nonpos [OF r] mult_nonpos_nonneg)
  have "h6 \<le> of_int (- 5) / 2 ^ 1"
    unfolding h6_def using h5 c3 by (intro rnd_le_dyadic [OF r]) simp_all
  then have h6: "h6 \<le> - (5 / 2)"
    by simp
  have "h6 * q \<le> - (5 / 2) * (39 / 16)"
  proof -
    have "h6 * q \<le> - (5 / 2) * q"
      using h6 q0 by (rule mult_right_mono)
    also have "\<dots> \<le> - (5 / 2) * (39 / 16)"
      using q by simp
    finally show ?thesis .
  qed
  then have "h7 \<le> of_int (- 195) / 2 ^ 5"
    unfolding h7_def by (intro rnd_le_dyadic [OF r]) simp_all
  then have h7: "h7 \<le> - (195 / 32)"
    by simp
  have "h8 \<le> of_int (- 55) / 2 ^ 5"
    unfolding h8_def using h7 c4 by (intro rnd_le_dyadic [OF r]) simp_all
  then have h8: "h8 \<le> - (55 / 32)"
    by simp
  have "h8 * q \<le> - (55 / 32) * (39 / 16)"
  proof -
    have "h8 * q \<le> - (55 / 32) * q"
      using h8 q0 by (rule mult_right_mono)
    also have "\<dots> \<le> - (55 / 32) * (39 / 16)"
      using q by simp
    finally show ?thesis .
  qed
  then have "h9 \<le> of_int (- 2145) / 2 ^ 9"
    unfolding h9_def by (intro rnd_le_dyadic [OF r]) simp_all
  then have h9: "h9 \<le> - (2145 / 512)"
    by simp
  have "h10 \<le> of_int (- 609) / 2 ^ 9"
    unfolding h10_def using h9 c5 by (intro rnd_le_dyadic [OF r]) simp_all
  then have "h10 < 0"
    by simp
  then show ?thesis
    unfolding tail_num_def m h10_def h9_def h8_def h7_def h6_def h5_def h4_def h3_def h2_def
      h1_def by simp
qed


lemma ln_le_minus_three:
  assumes "0 < x" "x \<le> (1 / 27 :: real)"
  shows "ln x \<le> - 3"
proof -
  have "exp (3::real) = exp 1 ^ 3"
    using exp_of_nat_mult [of 3 "1::real"] by simp
  also have "\<dots> \<le> 3 ^ 3"
    by (intro power_mono exp_le) simp
  finally have e3: "exp (3::real) \<le> 27"
    by simp
  have "x \<le> 1 / exp 3"
    using assms(2) e3 by (smt (verit) divide_left_mono exp_gt_zero mult_pos_pos)
  also have "\<dots> = exp (- 3)"
    by (simp add: exp_minus inverse_eq_divide)
  finally have "ln x \<le> ln (exp (- 3))"
    using assms(1) by (subst ln_le_cancel_iff) simp_all
  then show ?thesis
    by simp
qed

lemma tail_sqrt_rnd:
  assumes r: "rounding rnd" and l: "l \<le> 0"
  shows "\<exists>q. math_sqrt rnd (rnd (- 2 * l)) = Inr q \<and> 0 \<le> q"
proof -
  have "0 \<le> rnd (- 2 * l)"
    using l by (intro rnd_nonneg [OF r]) simp
  then have "math_sqrt rnd (rnd (- 2 * l)) = Inr (rnd (sqrt (rnd (- 2 * l))))"
    "0 \<le> rnd (sqrt (rnd (- 2 * l)))"
    by (simp_all add: math_sqrt_def rnd_nonneg [OF r])
  then show ?thesis
    by blast
qed

lemma normal_quantile_total_rnd:
  assumes r: "rounding rnd" and p: "0 < p" "p < 1"
  shows "\<exists>z. normal_quantile rnd p = Inr z"
proof -
  consider "p < rnd 0.02425" | "\<not> p < rnd 0.02425" "rnd (1 - rnd 0.02425) < p"
    | "\<not> p < rnd 0.02425" "\<not> rnd (1 - rnd 0.02425) < p"
    by blast
  then show ?thesis
  proof cases
    case 1
    have "rnd (ln p) \<le> 0"
      using p by (intro rnd_nonpos [OF r]) simp
    then obtain q where q: "math_sqrt rnd (rnd (- 2 * rnd (ln p))) = Inr q" "0 \<le> q"
      using tail_sqrt_rnd [OF r] by blast
    have "tail_den rnd (map rnd coeff_d) q \<noteq> 0"
      using tail_den_ge_one [OF r q(2)] by simp
    then show ?thesis
      using p q(1) unfolding normal_quantile_lower_rnd [where rnd = rnd, OF p 1]
      by (simp add: math_log_def and_then_def float_div_def)
  next
    case 2
    let ?x = "rnd (1 - p)"
    have x: "0 < ?x" "?x \<le> 1"
      using p by (simp_all add: rnd_pos [OF r] rnd_le_one [OF r])
    have "rnd (ln ?x) \<le> 0"
      using x by (intro rnd_nonpos [OF r]) simp
    then obtain q where q: "math_sqrt rnd (rnd (- 2 * rnd (ln ?x))) = Inr q" "0 \<le> q"
      using tail_sqrt_rnd [OF r] by blast
    have "tail_den rnd (map rnd coeff_d) q \<noteq> 0"
      using tail_den_ge_one [OF r q(2)] by simp
    then show ?thesis
      using x q(1) unfolding normal_quantile_upper_rnd [where rnd = rnd, OF p 2]
      by (simp add: math_log_def and_then_def float_div_def)
  next
    case 3
    show ?thesis
      using central_den_rnd [OF r central_r_rnd [OF r 3]]
      unfolding normal_quantile_central_rnd [OF r p 3]
      by (simp add: float_div_def)
  qed
qed

lemma normal_quantile_nonneg_rnd:
  assumes r: "rounding rnd" and p: "1 / 2 \<le> p" "p < 1"
    and z: "normal_quantile rnd p = Inr z"
  shows "0 \<le> z"
proof -
  have p0: "0 < p"
    using p by simp
  have lo: "\<not> p < rnd 0.02425"
    using breakpoints_rnd(2) [OF r] p by linarith
  show ?thesis
  proof (cases "rnd (1 - rnd 0.02425) < p")
    case True
    let ?x = "rnd (1 - p)"
    have "1 - p \<le> 244 / 10000" "0 \<le> 1 - p"
      using breakpoints_rnd(3) [OF r] True p by linarith+
    then have "\<bar>1 - p\<bar> \<le> 244 / 10000"
      by simp
    then have "\<bar>?x\<bar> \<le> 244 / 10000 + 1 / 10 ^ 6"
      by (intro abs_rnd_crude [OF r]) simp_all
    then have x1: "?x \<le> 1 / 27"
      by (simp add: abs_le_iff)
    have x0: "0 < ?x"
      using p by (intro rnd_pos [OF r]) simp
    have "rnd (ln ?x) \<le> of_int (- 3) / 2 ^ 0"
      using ln_le_minus_three [OF x0 x1] by (intro rnd_le_dyadic [OF r]) simp_all
    then have l: "rnd (ln ?x) \<le> - 3"
      by simp
    have "of_int 6 / 2 ^ 0 \<le> rnd (- 2 * rnd (ln ?x))"
      using l by (intro rnd_ge_dyadic [OF r]) simp_all
    then have m: "6 \<le> rnd (- 2 * rnd (ln ?x))"
      by simp
    have "(39 / 16)\<^sup>2 \<le> (6::real)"
      by (simp add: power2_eq_square)
    also note m
    finally have "39 / 16 \<le> sqrt (rnd (- 2 * rnd (ln ?x)))"
      by (rule real_le_rsqrt)
    then have "of_int 39 / 2 ^ 4 \<le> rnd (sqrt (rnd (- 2 * rnd (ln ?x))))"
      by (intro rnd_ge_dyadic [OF r]) simp_all
    then have q: "39 / 16 \<le> rnd (sqrt (rnd (- 2 * rnd (ln ?x))))"
      by simp
    let ?q = "rnd (sqrt (rnd (- 2 * rnd (ln ?x))))"
    have n: "tail_num rnd (map rnd coeff_c) ?q < 0"
      using r q by (rule tail_num_neg)
    have d: "1 \<le> tail_den rnd (map rnd coeff_d) ?q"
      using q by (intro tail_den_ge_one [OF r]) simp
    have "z = rnd (- tail_num rnd (map rnd coeff_c) ?q / tail_den rnd (map rnd coeff_d) ?q)"
      using z x0 m d unfolding normal_quantile_upper_rnd [where rnd = rnd, OF p0 p(2) lo True]
      by (simp add: math_log_def math_sqrt_def and_then_def float_div_def)
    moreover have "0 \<le> - tail_num rnd (map rnd coeff_c) ?q / tail_den rnd (map rnd coeff_d) ?q"
      using n d by (intro divide_nonneg_nonneg) simp_all
    ultimately show ?thesis
      using rnd_nonneg [OF r] by simp
  next
    case False
    let ?q = "rnd (p - 0.5)"
    let ?r = "rnd (?q * ?q)"
    let ?A = "horner_rnd rnd ?r (rnd (- 39.69683028665376))
         [220.9460984245205, - 275.9285104469687, 138.3577518672690, - 30.66479806614716,
          2.506628277459239]"
    let ?B = "horner_rnd rnd ?r (rnd (- 54.47609879822406))
         [161.5858368580409, - 155.6989798598866, 66.80131188771972, - 13.28068155288572, 1]"
    have a: "1 / 200 \<le> ?A"
      by (rule central_num_rnd [OF r central_r_rnd [OF r lo False]])
    have b: "1 / 1000 \<le> ?B"
      by (rule central_den_rnd [OF r central_r_rnd [OF r lo False]])
    have q: "0 \<le> ?q"
      using p by (intro rnd_nonneg [OF r]) simp
    have "0 \<le> ?A * ?q"
      using a q by (intro mult_nonneg_nonneg) simp_all
    then have n: "0 \<le> rnd (?A * ?q)"
      by (rule rnd_nonneg [OF r])
    have "z = rnd (rnd (?A * ?q) / ?B)"
      using z b unfolding normal_quantile_central_rnd [OF r p0 p(2) lo False]
      by (simp add: float_div_def)
    moreover have "0 \<le> rnd (?A * ?q) / ?B"
      using n b by (intro divide_nonneg_nonneg) simp_all
    ultimately show ?thesis
      using rnd_nonneg [OF r] by simp
  qed
qed


lemma wilson_argument_rnd:
  assumes r: "rounding rnd" and c: "0 < conf" "conf < 1"
  shows "1 / 2 \<le> rnd (1 - rnd (rnd (1 - conf) / 2))" "rnd (1 - rnd (rnd (1 - conf) / 2)) \<le> 1"
proof -
  define alpha where "alpha = rnd (1 - conf)"
  define ha where "ha = rnd (alpha / 2)"
  have a: "0 \<le> alpha" "alpha \<le> 1"
    unfolding alpha_def using c by (simp_all add: rnd_nonneg [OF r] rnd_le_one [OF r])
  have h0: "0 \<le> ha"
    unfolding ha_def using a by (intro rnd_nonneg [OF r]) simp
  have "ha \<le> of_int 1 / 2 ^ 1"
    unfolding ha_def using a by (intro rnd_le_dyadic [OF r]) simp_all
  then have h1: "ha \<le> 1 / 2"
    by simp
  have "of_int 1 / 2 ^ 1 \<le> rnd (1 - ha)"
    using h1 by (intro rnd_ge_dyadic [OF r]) simp_all
  then show "1 / 2 \<le> rnd (1 - rnd (rnd (1 - conf) / 2))"
    unfolding ha_def alpha_def by simp
  show "rnd (1 - rnd (rnd (1 - conf) / 2)) \<le> 1"
    using h0 unfolding ha_def alpha_def by (intro rnd_le_one [OF r]) simp
qed

lemma rnd_double_ge:
  assumes r: "rounding rnd" and x: "0 \<le> x" and c: "2 \<le> c"
  shows "x \<le> rnd (c * x)"
proof -
  have cx: "0 \<le> c * x" "2 * x \<le> c * x"
    using x c by (simp_all add: mult_right_mono)
  have "\<bar>rnd (c * x) - c * x\<bar> \<le> \<bar>c * x\<bar> / 2 ^ 53"
    using r by (rule rnd_error)
  also have "\<dots> \<le> (c * x) / 2"
    using cx(1) by (simp add: field_simps)
  finally show ?thesis
    using cx by linarith
qed

lemma wilson_ci_returns_rnd:
  assumes r: "rounding rnd"
    and v: "0 < n" "0 \<le> k" "k \<le> n" "0 < conf" "conf < 1"
    and z: "normal_quantile rnd (rnd (1 - rnd (rnd (1 - conf) / 2))) = Inr z" "0 \<le> z"
    and big: "\<bar>rnd (of_int n)\<bar> < 2 ^ 1024"
  shows "\<exists>low high. wilson_ci rnd k n conf = Inr (low, high)
           \<and> 0 \<le> low \<and> low \<le> high \<and> high \<le> 1"
proof -
  define alpha where "alpha = rnd (1 - conf)"
  define ha where "ha = rnd (alpha / 2)"
  define p where "p = rnd (1 - ha)"
  define phat where "phat = rnd (of_int k / of_int n)"
  define z2 where "z2 = rnd (z * z)"
  define fn where "fn = rnd (of_int n)"
  define z2n where "z2n = rnd (z2 / fn)"
  define denom where "denom = rnd (1 + z2n)"
  define fn2 where "fn2 = rnd (2 * fn)"
  define z2n2 where "z2n2 = rnd (z2 / fn2)"
  define cnum where "cnum = rnd (phat + z2n2)"
  define center where "center = rnd (cnum / denom)"
  define fn4 where "fn4 = rnd (4 * fn)"
  define z2n4 where "z2n4 = rnd (z2 / fn4)"
  define om where "om = rnd (1 - phat)"
  define pq where "pq = rnd (phat * om)"
  define vnum where "vnum = rnd (pq + z2n4)"
  define vv where "vv = rnd (vnum / fn)"
  define s where "s = rnd (sqrt vv)"
  define zs where "zs = rnd (z * s)"
  define hw where "hw = rnd (zs / denom)"
  define lo where "lo = rnd (center - hw)"
  define hi where "hi = rnd (center + hw)"
  have zq: "normal_quantile rnd p = Inr z"
    using z(1) unfolding p_def ha_def alpha_def .
  have phat: "0 \<le> phat" "phat \<le> 1"
    unfolding phat_def using v by (simp_all add: rnd_nonneg [OF r] rnd_le_one [OF r])
  have z2: "0 \<le> z2"
    unfolding z2_def by (rule rnd_nonneg [OF r]) simp
  have fn: "1 \<le> fn"
    unfolding fn_def using v(1) by (intro rnd_ge_one [OF r]) simp
  have z2n: "0 \<le> z2n"
    unfolding z2n_def using z2 fn by (intro rnd_nonneg [OF r] divide_nonneg_nonneg) simp_all
  have denom: "1 \<le> denom"
    unfolding denom_def using z2n by (intro rnd_ge_one [OF r]) simp
  have fn2: "fn \<le> fn2"
    unfolding fn2_def using fn by (intro rnd_double_ge [OF r]) simp_all
  have fn4: "fn \<le> fn4"
    unfolding fn4_def using fn by (intro rnd_double_ge [OF r]) simp_all
  have "z2 / fn2 \<le> z2 / fn"
    using z2 fn fn2 by (intro divide_left_mono) simp_all
  then have z2n2_le: "z2n2 \<le> z2n"
    unfolding z2n2_def z2n_def by (rule rnd_mono [OF r])
  have z2n2: "0 \<le> z2n2"
    unfolding z2n2_def using z2 fn fn2 by (intro rnd_nonneg [OF r] divide_nonneg_nonneg) simp_all
  have cnum: "0 \<le> cnum"
    unfolding cnum_def using phat z2n2 by (intro rnd_nonneg [OF r]) simp
  have "cnum \<le> denom"
    unfolding cnum_def denom_def using phat z2n2_le by (intro rnd_mono [OF r]) simp
  then have "cnum / denom \<le> 1"
    using denom by simp
  then have center1: "center \<le> 1"
    unfolding center_def by (rule rnd_le_one [OF r])
  have center0: "0 \<le> center"
    unfolding center_def using cnum denom by (intro rnd_nonneg [OF r] divide_nonneg_nonneg) simp_all
  have z2n4: "0 \<le> z2n4"
    unfolding z2n4_def using z2 fn fn4 by (intro rnd_nonneg [OF r] divide_nonneg_nonneg) simp_all
  have om: "0 \<le> om"
    unfolding om_def using phat by (intro rnd_nonneg [OF r]) simp
  have pq: "0 \<le> pq"
    unfolding pq_def using phat om by (intro rnd_nonneg [OF r] mult_nonneg_nonneg)
  have vnum: "0 \<le> vnum"
    unfolding vnum_def using pq z2n4 by (intro rnd_nonneg [OF r]) simp
  have vv: "0 \<le> vv"
    unfolding vv_def using vnum fn by (intro rnd_nonneg [OF r] divide_nonneg_nonneg) simp_all
  have s: "0 \<le> s"
    unfolding s_def using vv by (intro rnd_nonneg [OF r]) simp
  have zs: "0 \<le> zs"
    unfolding zs_def using z(2) s by (intro rnd_nonneg [OF r] mult_nonneg_nonneg)
  have hw: "0 \<le> hw"
    unfolding hw_def using zs denom by (intro rnd_nonneg [OF r] divide_nonneg_nonneg) simp_all
  have lohi: "lo \<le> hi"
    unfolding lo_def hi_def using hw by (intro rnd_mono [OF r]) simp
  have lo1: "lo \<le> 1"
    unfolding lo_def using hw center1 by (intro rnd_le_one [OF r]) simp
  have hi0: "0 \<le> hi"
    unfolding hi_def using hw center0 by (intro rnd_nonneg [OF r]) simp
  have w: "wilson_ci rnd k n conf = Inr (if 0 < lo then lo else 0, if hi < 1 then hi else 1)"
  proof (rule wilson_ci_steps [where rnd = rnd, OF v alpha_def [symmetric] ha_def [symmetric]
        p_def [symmetric] zq phat_def [symmetric] z2_def [symmetric] fn_def [symmetric]
        _ _ z2n_def [symmetric] denom_def [symmetric] fn2_def [symmetric] _ z2n2_def [symmetric]
        cnum_def [symmetric] _ center_def [symmetric] fn4_def [symmetric] _
        z2n4_def [symmetric] om_def [symmetric] pq_def [symmetric] vnum_def [symmetric]
        vv_def [symmetric] _ s_def [symmetric] zs_def [symmetric] hw_def [symmetric]
        lo_def [symmetric] hi_def [symmetric]])
    show "fn \<noteq> 0" "fn2 \<noteq> 0" "denom \<noteq> 0" "fn4 \<noteq> 0" "\<not> vv < 0"
      using fn fn2 fn4 denom vv by simp_all
    show "\<bar>fn\<bar> < 2 ^ 1024"
      unfolding fn_def by (rule big)
  qed
  have "0 \<le> (if 0 < lo then lo else 0)" "(if hi < 1 then hi else 1) \<le> 1"
    "(if 0 < lo then lo else 0) \<le> (if hi < 1 then hi else 1)"
    using lohi lo1 hi0 by simp_all
  then show ?thesis
    unfolding w by blast
qed

lemma wilson_ci_overflow_rnd:
  assumes v: "0 < n" "0 \<le> k" "k \<le> n" "0 < conf" "conf < 1"
    and z: "normal_quantile rnd (rnd (1 - rnd (rnd (1 - conf) / 2))) = Inr z"
    and big: "2 ^ 1024 \<le> \<bar>rnd (of_int n)\<bar>"
  shows "wilson_ci rnd k n conf = Inl (OverflowError ''int too large to convert to float'')"
  using v big unfolding wilson_ci_def Let_def
  by (simp add: z and_then_def int_to_float_def)

lemma wilson_ci_cases_rnd:
  assumes r: "rounding rnd"
    and v: "0 < n" "0 \<le> k" "k \<le> n" "0 < conf" "conf < 1"
  shows "(rnd (1 - rnd (rnd (1 - conf) / 2)) < 1 \<and> \<bar>rnd (of_int n)\<bar> < 2 ^ 1024
          \<and> (\<exists>low high. wilson_ci rnd k n conf = Inr (low, high)
                \<and> 0 \<le> low \<and> low \<le> high \<and> high \<le> 1))
       \<or> (rnd (1 - rnd (rnd (1 - conf) / 2)) = 1
          \<and> wilson_ci rnd k n conf = Inl (ValueError ''p must be in (0, 1)''))
       \<or> (rnd (1 - rnd (rnd (1 - conf) / 2)) < 1 \<and> 2 ^ 1024 \<le> \<bar>rnd (of_int n)\<bar>
          \<and> wilson_ci rnd k n conf
              = Inl (OverflowError ''int too large to convert to float''))"
proof (cases "rnd (1 - rnd (rnd (1 - conf) / 2)) < 1")
  case True
  let ?p = "rnd (1 - rnd (rnd (1 - conf) / 2))"
  have p: "1 / 2 \<le> ?p"
    using r v(4,5) by (rule wilson_argument_rnd)
  then have "0 < ?p"
    by simp
  then obtain z where z: "normal_quantile rnd ?p = Inr z"
    using normal_quantile_total_rnd [OF r _ True] by blast
  have z0: "0 \<le> z"
    using r p True z by (rule normal_quantile_nonneg_rnd)
  show ?thesis
  proof (cases "\<bar>rnd (of_int n)\<bar> < 2 ^ 1024")
    case True
    then show ?thesis
      using wilson_ci_returns_rnd [OF r v z z0 True] \<open>?p < 1\<close> by blast
  next
    case False
    then have "2 ^ 1024 \<le> \<bar>rnd (of_int n)\<bar>"
      by simp
    then show ?thesis
      using wilson_ci_overflow_rnd [OF v z] \<open>?p < 1\<close> by blast
  qed
next
  case False
  then have "rnd (1 - rnd (rnd (1 - conf) / 2)) = 1"
    using wilson_argument_rnd(2) [OF r v(4,5)] by simp
  moreover from this have "wilson_ci rnd k n conf = Inl (ValueError ''p must be in (0, 1)'')"
    using v by (intro wilson_ci_quantile_argument_one [where rnd = rnd]) simp_all
  ultimately show ?thesis
    by blast
qed

subsection \<open>Evaluations at concrete inputs\<close>

lemma normal_quantile_fl64_three_quarters:
  "normal_quantile fl64 (3 / 2 ^ 2) = Inr (6075263575542849 / 2 ^ 53)"
proof -
  have plow: "fl64 (0.02425) = 3494793310839505 / 2 ^ 57"
    using fl64_eqI [of "0.02425" 58 "6989586621679010"] by simp
  have phigh: "fl64 (1 - (3494793310839505 / 2 ^ 57)) = 8788774672813523 / 2 ^ 53"
    using fl64_eqI [of "1 - (3494793310839505 / 2 ^ 57)" 53 "8788774672813523"] by simp
  have a0: "fl64 (- 39.69683028665376) = - (5586832190211365 / 2 ^ 47)"
    using fl64_eqI [of "- 39.69683028665376" 47 "- 5586832190211365"] by simp
  have a1: "fl64 (220.9460984245205) = 7773849738544027 / 2 ^ 45"
    using fl64_eqI [of "220.9460984245205" 45 "7773849738544027"] by simp
  have a2: "fl64 (- 275.9285104469687) = - (4854185690741657 / 2 ^ 44)"
    using fl64_eqI [of "- 275.9285104469687" 44 "- 4854185690741657"] by simp
  have a3: "fl64 (138.3577518672690) = 4868030623072283 / 2 ^ 45"
    using fl64_eqI [of "138.3577518672690" 45 "4868030623072283"] by simp
  have a4: "fl64 (- 30.66479806614716) = - (8631373321505741 / 2 ^ 48)"
    using fl64_eqI [of "- 30.66479806614716" 48 "- 8631373321505741"] by simp
  have a5: "fl64 (2.506628277459239) = 5644425088160889 / 2 ^ 51"
    using fl64_eqI [of "2.506628277459239" 51 "5644425088160889"] by simp
  have b0: "fl64 (- 54.47609879822406) = - (1916707330064689 / 2 ^ 45)"
    using fl64_eqI [of "- 54.47609879822406" 47 "- 7666829320258756"] by simp
  have b1: "fl64 (161.5858368580409) = 5685296208298615 / 2 ^ 45"
    using fl64_eqI [of "161.5858368580409" 45 "5685296208298615"] by simp
  have b2: "fl64 (- 155.6989798598866) = - (2739085420620905 / 2 ^ 44)"
    using fl64_eqI [of "- 155.6989798598866" 45 "- 5478170841241810"] by simp
  have b3: "fl64 (66.80131188771972) = 2350362213479647 / 2 ^ 45"
    using fl64_eqI [of "66.80131188771972" 46 "4700724426959294"] by simp
  have b4: "fl64 (- 13.28068155288572) = - (3738179530800147 / 2 ^ 48)"
    using fl64_eqI [of "- 13.28068155288572" 49 "- 7476359061600294"] by simp
  have ca: "map fl64 coeff_a = [- (5586832190211365 / 2 ^ 47), 7773849738544027 / 2 ^ 45, - (4854185690741657 / 2 ^ 44), 4868030623072283 / 2 ^ 45, - (8631373321505741 / 2 ^ 48), 5644425088160889 / 2 ^ 51]"
    unfolding coeff_a_def using a0 a1 a2 a3 a4 a5 by simp
  have cb: "map fl64 coeff_b = [- (1916707330064689 / 2 ^ 45), 5685296208298615 / 2 ^ 45, - (2739085420620905 / 2 ^ 44), 2350362213479647 / 2 ^ 45, - (3738179530800147 / 2 ^ 48)]"
    unfolding coeff_b_def using b0 b1 b2 b3 b4 by simp
  have q: "fl64 ((3 / 2 ^ 2) - 0.5) = 1 / 2 ^ 2"
    using fl64_eqI [of "(3 / 2 ^ 2) - 0.5" 54 "4503599627370496"] by simp
  have r: "fl64 ((1 / 2 ^ 2) * (1 / 2 ^ 2)) = 1 / 2 ^ 4"
    using fl64_eqI [of "(1 / 2 ^ 2) * (1 / 2 ^ 2)" 56 "4503599627370496"] by simp
  have h1: "fl64 ((- (5586832190211365 / 2 ^ 47)) * (1 / 2 ^ 4)) = - (5586832190211365 / 2 ^ 51)"
    using fl64_eqI [of "(- (5586832190211365 / 2 ^ 47)) * (1 / 2 ^ 4)" 51 "- 5586832190211365"] by simp
  have h2: "fl64 ((- (5586832190211365 / 2 ^ 51)) + (7773849738544027 / 2 ^ 45)) = 3843277742785987 / 2 ^ 44"
    using fl64_eqI [of "(- (5586832190211365 / 2 ^ 51)) + (7773849738544027 / 2 ^ 45)" 45 "7686555485571974"] by simp
  have h3: "fl64 ((3843277742785987 / 2 ^ 44) * (1 / 2 ^ 4)) = 3843277742785987 / 2 ^ 48"
    using fl64_eqI [of "(3843277742785987 / 2 ^ 44) * (1 / 2 ^ 4)" 49 "7686555485571974"] by simp
  have h4: "fl64 ((3843277742785987 / 2 ^ 48) + (- (4854185690741657 / 2 ^ 44))) = - (4613980831817533 / 2 ^ 44)"
    using fl64_eqI [of "(3843277742785987 / 2 ^ 48) + (- (4854185690741657 / 2 ^ 44))" 44 "- 4613980831817533"] by simp
  have h5: "fl64 ((- (4613980831817533 / 2 ^ 44)) * (1 / 2 ^ 4)) = - (4613980831817533 / 2 ^ 48)"
    using fl64_eqI [of "(- (4613980831817533 / 2 ^ 44)) * (1 / 2 ^ 4)" 48 "- 4613980831817533"] by simp
  have h6: "fl64 ((- (4613980831817533 / 2 ^ 48)) + (4868030623072283 / 2 ^ 45)) = 8582566038190183 / 2 ^ 46"
    using fl64_eqI [of "(- (4613980831817533 / 2 ^ 48)) + (4868030623072283 / 2 ^ 45)" 46 "8582566038190183"] by simp
  have h7: "fl64 ((8582566038190183 / 2 ^ 46) * (1 / 2 ^ 4)) = 8582566038190183 / 2 ^ 50"
    using fl64_eqI [of "(8582566038190183 / 2 ^ 46) * (1 / 2 ^ 4)" 50 "8582566038190183"] by simp
  have h8: "fl64 ((8582566038190183 / 2 ^ 50) + (- (8631373321505741 / 2 ^ 48))) = - (6485731811958195 / 2 ^ 48)"
    using fl64_eqI [of "(8582566038190183 / 2 ^ 50) + (- (8631373321505741 / 2 ^ 48))" 48 "- 6485731811958195"] by simp
  have h9: "fl64 ((- (6485731811958195 / 2 ^ 48)) * (1 / 2 ^ 4)) = - (6485731811958195 / 2 ^ 52)"
    using fl64_eqI [of "(- (6485731811958195 / 2 ^ 48)) * (1 / 2 ^ 4)" 52 "- 6485731811958195"] by simp
  have h10: "fl64 ((- (6485731811958195 / 2 ^ 52)) + (5644425088160889 / 2 ^ 51)) = 4803118364363583 / 2 ^ 52"
    using fl64_eqI [of "(- (6485731811958195 / 2 ^ 52)) + (5644425088160889 / 2 ^ 51)" 52 "4803118364363583"] by simp
  have num: "fl64 ((4803118364363583 / 2 ^ 52) * (1 / 2 ^ 2)) = 4803118364363583 / 2 ^ 54"
    using fl64_eqI [of "(4803118364363583 / 2 ^ 52) * (1 / 2 ^ 2)" 54 "4803118364363583"] by simp
  have g1: "fl64 ((- (1916707330064689 / 2 ^ 45)) * (1 / 2 ^ 4)) = - (1916707330064689 / 2 ^ 49)"
    using fl64_eqI [of "(- (1916707330064689 / 2 ^ 45)) * (1 / 2 ^ 4)" 51 "- 7666829320258756"] by simp
  have g2: "fl64 ((- (1916707330064689 / 2 ^ 49)) + (5685296208298615 / 2 ^ 45)) = 1391375500042393 / 2 ^ 43"
    using fl64_eqI [of "(- (1916707330064689 / 2 ^ 49)) + (5685296208298615 / 2 ^ 45)" 45 "5565502000169572"] by simp
  have g3: "fl64 ((1391375500042393 / 2 ^ 43) * (1 / 2 ^ 4)) = 1391375500042393 / 2 ^ 47"
    using fl64_eqI [of "(1391375500042393 / 2 ^ 43) * (1 / 2 ^ 4)" 49 "5565502000169572"] by simp
  have g4: "fl64 ((1391375500042393 / 2 ^ 47) + (- (2739085420620905 / 2 ^ 44))) = - (1282581741557803 / 2 ^ 43)"
    using fl64_eqI [of "(1391375500042393 / 2 ^ 47) + (- (2739085420620905 / 2 ^ 44))" 45 "- 5130326966231212"] by simp
  have g5: "fl64 ((- (1282581741557803 / 2 ^ 43)) * (1 / 2 ^ 4)) = - (1282581741557803 / 2 ^ 47)"
    using fl64_eqI [of "(- (1282581741557803 / 2 ^ 43)) * (1 / 2 ^ 4)" 49 "- 5130326966231212"] by simp
  have g6: "fl64 ((- (1282581741557803 / 2 ^ 47)) + (2350362213479647 / 2 ^ 45)) = 8118867112360785 / 2 ^ 47"
    using fl64_eqI [of "(- (1282581741557803 / 2 ^ 47)) + (2350362213479647 / 2 ^ 45)" 47 "8118867112360785"] by simp
  have g7: "fl64 ((8118867112360785 / 2 ^ 47) * (1 / 2 ^ 4)) = 8118867112360785 / 2 ^ 51"
    using fl64_eqI [of "(8118867112360785 / 2 ^ 47) * (1 / 2 ^ 4)" 51 "8118867112360785"] by simp
  have g8: "fl64 ((8118867112360785 / 2 ^ 51) + (- (3738179530800147 / 2 ^ 48))) = - (2723321141755049 / 2 ^ 48)"
    using fl64_eqI [of "(8118867112360785 / 2 ^ 51) + (- (3738179530800147 / 2 ^ 48))" 49 "- 5446642283510098"] by simp
  have g9: "fl64 ((- (2723321141755049 / 2 ^ 48)) * (1 / 2 ^ 4)) = - (2723321141755049 / 2 ^ 52)"
    using fl64_eqI [of "(- (2723321141755049 / 2 ^ 48)) * (1 / 2 ^ 4)" 53 "- 5446642283510098"] by simp
  have den: "fl64 ((- (2723321141755049 / 2 ^ 52)) + 1) = 1780278485615447 / 2 ^ 52"
    using fl64_eqI [of "(- (2723321141755049 / 2 ^ 52)) + 1" 54 "7121113942461788"] by simp
  have z: "fl64 ((4803118364363583 / 2 ^ 54) / (1780278485615447 / 2 ^ 52)) = 6075263575542849 / 2 ^ 53"
    using fl64_eqI [of "(4803118364363583 / 2 ^ 54) / (1780278485615447 / 2 ^ 52)" 53 "6075263575542849"] by simp
  show ?thesis
    by (rule normal_quantile_central_steps [where rnd = fl64, OF _ _ plow phigh _ _ ca cb q r h1 h2 h3 h4 h5 h6 h7 h8 h9 h10 num g1 g2 g3 g4 g5 g6 g7 g8 g9 den _ z])
      simp_all
qed

lemma wilson_ci_fl64_0_5:
  "wilson_ci fl64 0 5 (1 / 2) = Inr (1 / 2 ^ 57, 3004766834102349 / 2 ^ 55)"
proof -
  have alpha: "fl64 (1 - (1 / 2)) = 1 / 2"
    using fl64_eqI [of "1 - (1 / 2)" 53 "4503599627370496"] by simp
  have ha: "fl64 ((1 / 2) / 2) = 1 / 2 ^ 2"
    using fl64_eqI [of "(1 / 2) / 2" 54 "4503599627370496"] by simp
  have p: "fl64 (1 - (1 / 2 ^ 2)) = 3 / 2 ^ 2"
    using fl64_eqI [of "1 - (1 / 2 ^ 2)" 53 "6755399441055744"] by simp
  have phat: "fl64 (real_of_int 0 / real_of_int 5) = 0"
    by (simp add: fl64_def)
  have z2: "fl64 ((6075263575542849 / 2 ^ 53) * (6075263575542849 / 2 ^ 53)) = 4097703011609353 / 2 ^ 53"
    using fl64_eqI [of "(6075263575542849 / 2 ^ 53) * (6075263575542849 / 2 ^ 53)" 54 "8195406023218706"] by simp
  have fn: "fl64 (real_of_int 5) = 5"
    using fl64_eqI [of "real_of_int 5" 50 "5629499534213120"] by simp
  have z2n: "fl64 ((4097703011609353 / 2 ^ 53) / 5) = 6556324818574965 / 2 ^ 56"
    using fl64_eqI [of "(4097703011609353 / 2 ^ 53) / 5" 56 "6556324818574965"] by simp
  have denom: "fl64 (1 + (6556324818574965 / 2 ^ 56)) = 4913369928531431 / 2 ^ 52"
    using fl64_eqI [of "1 + (6556324818574965 / 2 ^ 56)" 52 "4913369928531431"] by simp
  have fn2: "fl64 (2 * 5) = 10"
    using fl64_eqI [of "2 * 5" 49 "5629499534213120"] by simp
  have z2n2: "fl64 ((4097703011609353 / 2 ^ 53) / 10) = 6556324818574965 / 2 ^ 57"
    using fl64_eqI [of "(4097703011609353 / 2 ^ 53) / 10" 57 "6556324818574965"] by simp
  have cnum: "fl64 (0 + (6556324818574965 / 2 ^ 57)) = 6556324818574965 / 2 ^ 57"
    using fl64_eqI [of "0 + (6556324818574965 / 2 ^ 57)" 57 "6556324818574965"] by simp
  have center: "fl64 ((6556324818574965 / 2 ^ 57) / (4913369928531431 / 2 ^ 52)) = 3004766834102349 / 2 ^ 56"
    using fl64_eqI [of "(6556324818574965 / 2 ^ 57) / (4913369928531431 / 2 ^ 52)" 57 "6009533668204698"] by simp
  have fn4: "fl64 (4 * 5) = 20"
    using fl64_eqI [of "4 * 5" 48 "5629499534213120"] by simp
  have z2n4: "fl64 ((4097703011609353 / 2 ^ 53) / 20) = 6556324818574965 / 2 ^ 58"
    using fl64_eqI [of "(4097703011609353 / 2 ^ 53) / 20" 58 "6556324818574965"] by simp
  have om: "fl64 (1 - 0) = 1"
    using fl64_eqI [of "1 - 0" 52 "4503599627370496"] by simp
  have pq: "fl64 (0 * 1) = 0"
    by (simp add: fl64_def)
  have vnum: "fl64 (0 + (6556324818574965 / 2 ^ 58)) = 6556324818574965 / 2 ^ 58"
    using fl64_eqI [of "0 + (6556324818574965 / 2 ^ 58)" 58 "6556324818574965"] by simp
  have v: "fl64 ((6556324818574965 / 2 ^ 58) / 5) = 1311264963714993 / 2 ^ 58"
    using fl64_eqI [of "(6556324818574965 / 2 ^ 58) / 5" 60 "5245059854859972"] by simp
  have s: "fl64 (sqrt (1311264963714993 / 2 ^ 58)) = 4860210860434279 / 2 ^ 56"
    using fl64_sqrt_eqI [of "4860210860434279" "1311264963714993 / 2 ^ 58" 56] by (simp add: power2_eq_square)
  have zs: "fl64 ((6075263575542849 / 2 ^ 53) * (4860210860434279 / 2 ^ 56)) = 1639081204643741 / 2 ^ 55"
    using fl64_eqI [of "(6075263575542849 / 2 ^ 53) * (4860210860434279 / 2 ^ 56)" 57 "6556324818574964"] by simp
  have hw: "fl64 ((1639081204643741 / 2 ^ 55) / (4913369928531431 / 2 ^ 52)) = 6009533668204697 / 2 ^ 57"
    using fl64_eqI [of "(1639081204643741 / 2 ^ 55) / (4913369928531431 / 2 ^ 52)" 57 "6009533668204697"] by simp
  have lo: "fl64 ((3004766834102349 / 2 ^ 56) - (6009533668204697 / 2 ^ 57)) = 1 / 2 ^ 57"
    using fl64_eqI [of "(3004766834102349 / 2 ^ 56) - (6009533668204697 / 2 ^ 57)" 109 "4503599627370496"] by simp
  have hi: "fl64 ((3004766834102349 / 2 ^ 56) + (6009533668204697 / 2 ^ 57)) = 3004766834102349 / 2 ^ 55"
    using fl64_tie_upI [of "(3004766834102349 / 2 ^ 56) + (6009533668204697 / 2 ^ 57)" 56 "6009533668204698"] by simp
  have "wilson_ci fl64 0 5 (1 / 2) =
      Inr (if (0::real) < (1 / 2 ^ 57) then 1 / 2 ^ 57 else 0, if (3004766834102349 / 2 ^ 55) < (1::real) then 3004766834102349 / 2 ^ 55 else 1)"
    by (rule wilson_ci_steps [where rnd = fl64, OF _ _ _ _ _ alpha ha p normal_quantile_fl64_three_quarters phat z2 fn _ _ z2n denom fn2 _ z2n2 cnum _ center fn4 _ z2n4 om pq vnum v _ s zs hw lo hi]) simp_all
  then show ?thesis
    by simp
qed

lemma wilson_ci_fl64_7_7:
  "wilson_ci fl64 7 7 (1 / 2) = Inr (8457536215512231 / 2 ^ 53, 9007199254740991 / 2 ^ 53)"
proof -
  have alpha: "fl64 (1 - (1 / 2)) = 1 / 2"
    using fl64_eqI [of "1 - (1 / 2)" 53 "4503599627370496"] by simp
  have ha: "fl64 ((1 / 2) / 2) = 1 / 2 ^ 2"
    using fl64_eqI [of "(1 / 2) / 2" 54 "4503599627370496"] by simp
  have p: "fl64 (1 - (1 / 2 ^ 2)) = 3 / 2 ^ 2"
    using fl64_eqI [of "1 - (1 / 2 ^ 2)" 53 "6755399441055744"] by simp
  have phat: "fl64 (real_of_int 7 / real_of_int 7) = 1"
    using fl64_eqI [of "real_of_int 7 / real_of_int 7" 52 "4503599627370496"] by simp
  have z2: "fl64 ((6075263575542849 / 2 ^ 53) * (6075263575542849 / 2 ^ 53)) = 4097703011609353 / 2 ^ 53"
    using fl64_eqI [of "(6075263575542849 / 2 ^ 53) * (6075263575542849 / 2 ^ 53)" 54 "8195406023218706"] by simp
  have fn: "fl64 (real_of_int 7) = 7"
    using fl64_eqI [of "real_of_int 7" 50 "7881299347898368"] by simp
  have z2n: "fl64 ((4097703011609353 / 2 ^ 53) / 7) = 4683089156124975 / 2 ^ 56"
    using fl64_eqI [of "(4097703011609353 / 2 ^ 53) / 7" 56 "4683089156124975"] by simp
  have denom: "fl64 (1 + (4683089156124975 / 2 ^ 56)) = 4796292699628307 / 2 ^ 52"
    using fl64_eqI [of "1 + (4683089156124975 / 2 ^ 56)" 52 "4796292699628307"] by simp
  have fn2: "fl64 (2 * 7) = 14"
    using fl64_eqI [of "2 * 7" 49 "7881299347898368"] by simp
  have z2n2: "fl64 ((4097703011609353 / 2 ^ 53) / 14) = 4683089156124975 / 2 ^ 57"
    using fl64_eqI [of "(4097703011609353 / 2 ^ 53) / 14" 57 "4683089156124975"] by simp
  have cnum: "fl64 (1 + (4683089156124975 / 2 ^ 57)) = 4649946163499401 / 2 ^ 52"
    using fl64_eqI [of "1 + (4683089156124975 / 2 ^ 57)" 52 "4649946163499401"] by simp
  have center: "fl64 ((4649946163499401 / 2 ^ 52) / (4796292699628307 / 2 ^ 52)) = 8732367735126611 / 2 ^ 53"
    using fl64_eqI [of "(4649946163499401 / 2 ^ 52) / (4796292699628307 / 2 ^ 52)" 53 "8732367735126611"] by simp
  have fn4: "fl64 (4 * 7) = 28"
    using fl64_eqI [of "4 * 7" 48 "7881299347898368"] by simp
  have z2n4: "fl64 ((4097703011609353 / 2 ^ 53) / 28) = 4683089156124975 / 2 ^ 58"
    using fl64_eqI [of "(4097703011609353 / 2 ^ 53) / 28" 58 "4683089156124975"] by simp
  have om: "fl64 (1 - 1) = 0"
    by (simp add: fl64_def)
  have pq: "fl64 (1 * 0) = 0"
    by (simp add: fl64_def)
  have vnum: "fl64 (0 + (4683089156124975 / 2 ^ 58)) = 4683089156124975 / 2 ^ 58"
    using fl64_eqI [of "0 + (4683089156124975 / 2 ^ 58)" 58 "4683089156124975"] by simp
  have v: "fl64 ((4683089156124975 / 2 ^ 58) / 7) = 5352101892714257 / 2 ^ 61"
    using fl64_eqI [of "(4683089156124975 / 2 ^ 58) / 7" 61 "5352101892714257"] by simp
  have s: "fl64 (sqrt (5352101892714257 / 2 ^ 61)) = 3471579186024485 / 2 ^ 56"
    using fl64_sqrt_eqI [of "6943158372048970" "5352101892714257 / 2 ^ 61" 57] by (simp add: power2_eq_square)
  have zs: "fl64 ((6075263575542849 / 2 ^ 53) * (3471579186024485 / 2 ^ 56)) = 4683089156124975 / 2 ^ 57"
    using fl64_eqI [of "(6075263575542849 / 2 ^ 53) * (3471579186024485 / 2 ^ 56)" 57 "4683089156124975"] by simp
  have hw: "fl64 ((4683089156124975 / 2 ^ 57) / (4796292699628307 / 2 ^ 52)) = 8794608627660149 / 2 ^ 58"
    using fl64_eqI [of "(4683089156124975 / 2 ^ 57) / (4796292699628307 / 2 ^ 52)" 58 "8794608627660149"] by simp
  have lo: "fl64 ((8732367735126611 / 2 ^ 53) - (8794608627660149 / 2 ^ 58)) = 8457536215512231 / 2 ^ 53"
    using fl64_eqI [of "(8732367735126611 / 2 ^ 53) - (8794608627660149 / 2 ^ 58)" 53 "8457536215512231"] by simp
  have hi: "fl64 ((8732367735126611 / 2 ^ 53) + (8794608627660149 / 2 ^ 58)) = 9007199254740991 / 2 ^ 53"
    using fl64_eqI [of "(8732367735126611 / 2 ^ 53) + (8794608627660149 / 2 ^ 58)" 53 "9007199254740991"] by simp
  have "wilson_ci fl64 7 7 (1 / 2) =
      Inr (if (0::real) < (8457536215512231 / 2 ^ 53) then 8457536215512231 / 2 ^ 53 else 0, if (9007199254740991 / 2 ^ 53) < (1::real) then 9007199254740991 / 2 ^ 53 else 1)"
    by (rule wilson_ci_steps [where rnd = fl64, OF _ _ _ _ _ alpha ha p normal_quantile_fl64_three_quarters phat z2 fn _ _ z2n denom fn2 _ z2n2 cnum _ center fn4 _ z2n4 om pq vnum v _ s zs hw lo hi]) simp_all
  then show ?thesis
    by simp
qed



lemma normal_quantile_fl64_975:
  "normal_quantile fl64 (8782019273372467 / 2 ^ 53) = Inr (4413446538775251 / 2 ^ 51)"
proof -
  have plow: "fl64 (0.02425) = 3494793310839505 / 2 ^ 57"
    using fl64_eqI [of "0.02425" 58 "6989586621679010"] by simp
  have phigh: "fl64 (1 - (3494793310839505 / 2 ^ 57)) = 8788774672813523 / 2 ^ 53"
    using fl64_eqI [of "1 - (3494793310839505 / 2 ^ 57)" 53 "8788774672813523"] by simp
  have a0: "fl64 (- 39.69683028665376) = - (5586832190211365 / 2 ^ 47)"
    using fl64_eqI [of "- 39.69683028665376" 47 "- 5586832190211365"] by simp
  have a1: "fl64 (220.9460984245205) = 7773849738544027 / 2 ^ 45"
    using fl64_eqI [of "220.9460984245205" 45 "7773849738544027"] by simp
  have a2: "fl64 (- 275.9285104469687) = - (4854185690741657 / 2 ^ 44)"
    using fl64_eqI [of "- 275.9285104469687" 44 "- 4854185690741657"] by simp
  have a3: "fl64 (138.3577518672690) = 4868030623072283 / 2 ^ 45"
    using fl64_eqI [of "138.3577518672690" 45 "4868030623072283"] by simp
  have a4: "fl64 (- 30.66479806614716) = - (8631373321505741 / 2 ^ 48)"
    using fl64_eqI [of "- 30.66479806614716" 48 "- 8631373321505741"] by simp
  have a5: "fl64 (2.506628277459239) = 5644425088160889 / 2 ^ 51"
    using fl64_eqI [of "2.506628277459239" 51 "5644425088160889"] by simp
  have b0: "fl64 (- 54.47609879822406) = - (1916707330064689 / 2 ^ 45)"
    using fl64_eqI [of "- 54.47609879822406" 47 "- 7666829320258756"] by simp
  have b1: "fl64 (161.5858368580409) = 5685296208298615 / 2 ^ 45"
    using fl64_eqI [of "161.5858368580409" 45 "5685296208298615"] by simp
  have b2: "fl64 (- 155.6989798598866) = - (2739085420620905 / 2 ^ 44)"
    using fl64_eqI [of "- 155.6989798598866" 45 "- 5478170841241810"] by simp
  have b3: "fl64 (66.80131188771972) = 2350362213479647 / 2 ^ 45"
    using fl64_eqI [of "66.80131188771972" 46 "4700724426959294"] by simp
  have b4: "fl64 (- 13.28068155288572) = - (3738179530800147 / 2 ^ 48)"
    using fl64_eqI [of "- 13.28068155288572" 49 "- 7476359061600294"] by simp
  have ca: "map fl64 coeff_a = [- (5586832190211365 / 2 ^ 47), 7773849738544027 / 2 ^ 45, - (4854185690741657 / 2 ^ 44), 4868030623072283 / 2 ^ 45, - (8631373321505741 / 2 ^ 48), 5644425088160889 / 2 ^ 51]"
    unfolding coeff_a_def using a0 a1 a2 a3 a4 a5 by simp
  have cb: "map fl64 coeff_b = [- (1916707330064689 / 2 ^ 45), 5685296208298615 / 2 ^ 45, - (2739085420620905 / 2 ^ 44), 2350362213479647 / 2 ^ 45, - (3738179530800147 / 2 ^ 48)]"
    unfolding coeff_b_def using b0 b1 b2 b3 b4 by simp
  have q: "fl64 ((8782019273372467 / 2 ^ 53) - 0.5) = 4278419646001971 / 2 ^ 53"
    using fl64_eqI [of "(8782019273372467 / 2 ^ 53) - 0.5" 54 "8556839292003942"] by simp
  have r: "fl64 ((4278419646001971 / 2 ^ 53) * (4278419646001971 / 2 ^ 53)) = 8128997327403745 / 2 ^ 55"
    using fl64_eqI [of "(4278419646001971 / 2 ^ 53) * (4278419646001971 / 2 ^ 53)" 55 "8128997327403745"] by simp
  have h1: "fl64 ((- (5586832190211365 / 2 ^ 47)) * (8128997327403745 / 2 ^ 55)) = - (5042116051665757 / 2 ^ 49)"
    using fl64_eqI [of "(- (5586832190211365 / 2 ^ 47)) * (8128997327403745 / 2 ^ 55)" 49 "- 5042116051665757"] by simp
  have h2: "fl64 ((- (5042116051665757 / 2 ^ 49)) + (7773849738544027 / 2 ^ 45)) = 7458717485314917 / 2 ^ 45"
    using fl64_eqI [of "(- (5042116051665757 / 2 ^ 49)) + (7773849738544027 / 2 ^ 45)" 45 "7458717485314917"] by simp
  have h3: "fl64 ((7458717485314917 / 2 ^ 45) * (8128997327403745 / 2 ^ 55)) = 841436566312089 / 2 ^ 44"
    using fl64_eqI [of "(7458717485314917 / 2 ^ 45) * (8128997327403745 / 2 ^ 55)" 47 "6731492530496712"] by simp
  have h4: "fl64 ((841436566312089 / 2 ^ 44) + (- (4854185690741657 / 2 ^ 44))) = - (15674801267303 / 2 ^ 36)"
    using fl64_eqI [of "(841436566312089 / 2 ^ 44) + (- (4854185690741657 / 2 ^ 44))" 45 "- 8025498248859136"] by simp
  have h5: "fl64 ((- (15674801267303 / 2 ^ 36)) * (8128997327403745 / 2 ^ 55)) = - (3621506084797685 / 2 ^ 46)"
    using fl64_eqI [of "(- (15674801267303 / 2 ^ 36)) * (8128997327403745 / 2 ^ 55)" 47 "- 7243012169595370"] by simp
  have h6: "fl64 ((- (3621506084797685 / 2 ^ 46)) + (4868030623072283 / 2 ^ 45)) = 6114555161346881 / 2 ^ 46"
    using fl64_eqI [of "(- (3621506084797685 / 2 ^ 46)) + (4868030623072283 / 2 ^ 45)" 46 "6114555161346881"] by simp
  have h7: "fl64 ((6114555161346881 / 2 ^ 46) * (8128997327403745 / 2 ^ 55)) = 689798254139445 / 2 ^ 45"
    using fl64_eqI [of "(6114555161346881 / 2 ^ 46) * (8128997327403745 / 2 ^ 55)" 48 "5518386033115560"] by simp
  have h8: "fl64 ((689798254139445 / 2 ^ 45) + (- (8631373321505741 / 2 ^ 48))) = - (3112987288390181 / 2 ^ 48)"
    using fl64_eqI [of "(689798254139445 / 2 ^ 45) + (- (8631373321505741 / 2 ^ 48))" 49 "- 6225974576780362"] by simp
  have h9: "fl64 ((- (3112987288390181 / 2 ^ 48)) * (8128997327403745 / 2 ^ 55)) = - (5618942055544277 / 2 ^ 51)"
    using fl64_eqI [of "(- (3112987288390181 / 2 ^ 48)) * (8128997327403745 / 2 ^ 55)" 51 "- 5618942055544277"] by simp
  have h10: "fl64 ((- (5618942055544277 / 2 ^ 51)) + (5644425088160889 / 2 ^ 51)) = 6370758154153 / 2 ^ 49"
    using fl64_eqI [of "(- (5618942055544277 / 2 ^ 51)) + (5644425088160889 / 2 ^ 51)" 59 "6523656349852672"] by simp
  have num: "fl64 ((6370758154153 / 2 ^ 49) * (4278419646001971 / 2 ^ 53)) = 3098736766180019 / 2 ^ 59"
    using fl64_eqI [of "(6370758154153 / 2 ^ 49) * (4278419646001971 / 2 ^ 53)" 60 "6197473532360038"] by simp
  have g1: "fl64 ((- (1916707330064689 / 2 ^ 45)) * (8128997327403745 / 2 ^ 55)) = - (6919313461533527 / 2 ^ 49)"
    using fl64_eqI [of "(- (1916707330064689 / 2 ^ 45)) * (8128997327403745 / 2 ^ 55)" 49 "- 6919313461533527"] by simp
  have g2: "fl64 ((- (6919313461533527 / 2 ^ 49)) + (5685296208298615 / 2 ^ 45)) = 2626419558476385 / 2 ^ 44"
    using fl64_eqI [of "(- (6919313461533527 / 2 ^ 49)) + (5685296208298615 / 2 ^ 45)" 45 "5252839116952770"] by simp
  have g3: "fl64 ((2626419558476385 / 2 ^ 44) * (8128997327403745 / 2 ^ 55)) = 4740687303049875 / 2 ^ 47"
    using fl64_eqI [of "(2626419558476385 / 2 ^ 44) * (8128997327403745 / 2 ^ 55)" 47 "4740687303049875"] by simp
  have g4: "fl64 ((4740687303049875 / 2 ^ 47) + (- (2739085420620905 / 2 ^ 44))) = - (4292999015479341 / 2 ^ 45)"
    using fl64_tie_upI [of "(4740687303049875 / 2 ^ 47) + (- (2739085420620905 / 2 ^ 44))" 46 "- 8585998030958682"] by simp
  have g5: "fl64 ((- (4292999015479341 / 2 ^ 45)) * (8128997327403745 / 2 ^ 55)) = - (3874431611470105 / 2 ^ 47)"
    using fl64_eqI [of "(- (4292999015479341 / 2 ^ 45)) * (8128997327403745 / 2 ^ 55)" 48 "- 7748863222940210"] by simp
  have g6: "fl64 ((- (3874431611470105 / 2 ^ 47)) + (2350362213479647 / 2 ^ 45)) = 5527017242448483 / 2 ^ 47"
    using fl64_eqI [of "(- (3874431611470105 / 2 ^ 47)) + (2350362213479647 / 2 ^ 45)" 47 "5527017242448483"] by simp
  have g7: "fl64 ((5527017242448483 / 2 ^ 47) * (8128997327403745 / 2 ^ 55)) = 1247033265327439 / 2 ^ 47"
    using fl64_eqI [of "(5527017242448483 / 2 ^ 47) * (8128997327403745 / 2 ^ 55)" 49 "4988133061309756"] by simp
  have g8: "fl64 ((1247033265327439 / 2 ^ 47) + (- (3738179530800147 / 2 ^ 48))) = - (1244113000145269 / 2 ^ 48)"
    using fl64_eqI [of "(1247033265327439 / 2 ^ 47) + (- (3738179530800147 / 2 ^ 48))" 50 "- 4976452000581076"] by simp
  have g9: "fl64 ((- (1244113000145269 / 2 ^ 48)) * (8128997327403745 / 2 ^ 55)) = - (4491247930524421 / 2 ^ 52)"
    using fl64_eqI [of "(- (1244113000145269 / 2 ^ 48)) * (8128997327403745 / 2 ^ 55)" 53 "- 8982495861048842"] by simp
  have den: "fl64 ((- (4491247930524421 / 2 ^ 52)) + 1) = 12351696846075 / 2 ^ 52"
    using fl64_eqI [of "(- (4491247930524421 / 2 ^ 52)) + 1" 61 "6324068785190400"] by simp
  have z: "fl64 ((3098736766180019 / 2 ^ 59) / (12351696846075 / 2 ^ 52)) = 4413446538775251 / 2 ^ 51"
    using fl64_eqI [of "(3098736766180019 / 2 ^ 59) / (12351696846075 / 2 ^ 52)" 52 "8826893077550502"] by simp
  show ?thesis
    by (rule normal_quantile_central_steps [where rnd = fl64, OF _ _ plow phigh _ _ ca cb q r h1 h2 h3 h4 h5 h6 h7 h8 h9 h10 num g1 g2 g3 g4 g5 g6 g7 g8 g9 den _ z])
      simp_all
qed

lemma fl64_975:
  "fl64 (0.975) = 8782019273372467 / 2 ^ 53"
    using fl64_eqI [of "0.975" 53 "8782019273372467"] by simp

lemma wilson_ci_fl64_near_one:
  "wilson_ci fl64 1 10 (9007199254740991 / 2 ^ 53) = Inl (ValueError ''p must be in (0, 1)'')"
proof -
  have alpha: "fl64 (1 - (9007199254740991 / 2 ^ 53)) = 1 / 2 ^ 53"
    using fl64_eqI [of "1 - (9007199254740991 / 2 ^ 53)" 105 "4503599627370496"] by simp
  have ha: "fl64 ((1 / 2 ^ 53) / 2) = 1 / 2 ^ 54"
    using fl64_eqI [of "(1 / 2 ^ 53) / 2" 106 "4503599627370496"] by simp
  have p: "fl64 (1 - (1 / 2 ^ 54)) = 1"
    using fl64_tie_upI [of "1 - (1 / 2 ^ 54)" 53 "9007199254740992"] by simp
  show ?thesis
    by (rule wilson_ci_quantile_argument_one [where rnd = fl64, OF _ _ _ _ _ alpha ha p]) simp_all
qed

lemma fl64_one_minus_tiny:
  "fl64 (1 - (1 / 2 ^ 60)) = 1"
    using fl64_eqI [of "1 - (1 / 2 ^ 60)" 53 "9007199254740992"] by simp


lemma known_value_exact:
  "normal_quantile exact 0.975
     = Inr (1565713706127574936278201074 / 798848201913635967184059665)"
  by (simp add: normal_quantile_def Let_def exact_def float_div_def coeff_a_def coeff_b_def)

lemma wilson_ci_fl64_5_5:
  "wilson_ci fl64 5 5 (1 / 2) = Inr (4128003773107703 / 2 ^ 52, 1)"
proof -
  have alpha: "fl64 (1 - (1 / 2)) = 1 / 2"
    using fl64_eqI [of "1 - (1 / 2)" 53 "4503599627370496"] by simp
  have ha: "fl64 ((1 / 2) / 2) = 1 / 2 ^ 2"
    using fl64_eqI [of "(1 / 2) / 2" 54 "4503599627370496"] by simp
  have p: "fl64 (1 - (1 / 2 ^ 2)) = 3 / 2 ^ 2"
    using fl64_eqI [of "1 - (1 / 2 ^ 2)" 53 "6755399441055744"] by simp
  have phat: "fl64 (real_of_int 5 / real_of_int 5) = 1"
    using fl64_eqI [of "real_of_int 5 / real_of_int 5" 52 "4503599627370496"] by simp
  have z2: "fl64 ((6075263575542849 / 2 ^ 53) * (6075263575542849 / 2 ^ 53)) = 4097703011609353 / 2 ^ 53"
    using fl64_eqI [of "(6075263575542849 / 2 ^ 53) * (6075263575542849 / 2 ^ 53)" 54 "8195406023218706"] by simp
  have fn: "fl64 (real_of_int 5) = 5"
    using fl64_eqI [of "real_of_int 5" 50 "5629499534213120"] by simp
  have z2n: "fl64 ((4097703011609353 / 2 ^ 53) / 5) = 6556324818574965 / 2 ^ 56"
    using fl64_eqI [of "(4097703011609353 / 2 ^ 53) / 5" 56 "6556324818574965"] by simp
  have denom: "fl64 (1 + (6556324818574965 / 2 ^ 56)) = 4913369928531431 / 2 ^ 52"
    using fl64_eqI [of "1 + (6556324818574965 / 2 ^ 56)" 52 "4913369928531431"] by simp
  have fn2: "fl64 (2 * 5) = 10"
    using fl64_eqI [of "2 * 5" 49 "5629499534213120"] by simp
  have z2n2: "fl64 ((4097703011609353 / 2 ^ 53) / 10) = 6556324818574965 / 2 ^ 57"
    using fl64_eqI [of "(4097703011609353 / 2 ^ 53) / 10" 57 "6556324818574965"] by simp
  have cnum: "fl64 (1 + (6556324818574965 / 2 ^ 57)) = 1177121194487741 / 2 ^ 50"
    using fl64_eqI [of "1 + (6556324818574965 / 2 ^ 57)" 52 "4708484777950964"] by simp
  have center: "fl64 ((1177121194487741 / 2 ^ 50) / (4913369928531431 / 2 ^ 52)) = 1078950425059775 / 2 ^ 50"
    using fl64_eqI [of "(1177121194487741 / 2 ^ 50) / (4913369928531431 / 2 ^ 52)" 53 "8631603400478200"] by simp
  have fn4: "fl64 (4 * 5) = 20"
    using fl64_eqI [of "4 * 5" 48 "5629499534213120"] by simp
  have z2n4: "fl64 ((4097703011609353 / 2 ^ 53) / 20) = 6556324818574965 / 2 ^ 58"
    using fl64_eqI [of "(4097703011609353 / 2 ^ 53) / 20" 58 "6556324818574965"] by simp
  have om: "fl64 (1 - 1) = 0"
    by (simp add: fl64_def)
  have pq: "fl64 (1 * 0) = 0"
    by (simp add: fl64_def)
  have vnum: "fl64 (0 + (6556324818574965 / 2 ^ 58)) = 6556324818574965 / 2 ^ 58"
    using fl64_eqI [of "0 + (6556324818574965 / 2 ^ 58)" 58 "6556324818574965"] by simp
  have v: "fl64 ((6556324818574965 / 2 ^ 58) / 5) = 1311264963714993 / 2 ^ 58"
    using fl64_eqI [of "(6556324818574965 / 2 ^ 58) / 5" 60 "5245059854859972"] by simp
  have s: "fl64 (sqrt (1311264963714993 / 2 ^ 58)) = 4860210860434279 / 2 ^ 56"
    using fl64_sqrt_eqI [of "4860210860434279" "1311264963714993 / 2 ^ 58" 56] by (simp add: power2_eq_square)
  have zs: "fl64 ((6075263575542849 / 2 ^ 53) * (4860210860434279 / 2 ^ 56)) = 1639081204643741 / 2 ^ 55"
    using fl64_eqI [of "(6075263575542849 / 2 ^ 53) * (4860210860434279 / 2 ^ 56)" 57 "6556324818574964"] by simp
  have hw: "fl64 ((1639081204643741 / 2 ^ 55) / (4913369928531431 / 2 ^ 52)) = 6009533668204697 / 2 ^ 57"
    using fl64_eqI [of "(1639081204643741 / 2 ^ 55) / (4913369928531431 / 2 ^ 52)" 57 "6009533668204697"] by simp
  have lo: "fl64 ((1078950425059775 / 2 ^ 50) - (6009533668204697 / 2 ^ 57)) = 4128003773107703 / 2 ^ 52"
    using fl64_eqI [of "(1078950425059775 / 2 ^ 50) - (6009533668204697 / 2 ^ 57)" 53 "8256007546215406"] by simp
  have hi: "fl64 ((1078950425059775 / 2 ^ 50) + (6009533668204697 / 2 ^ 57)) = 4503599627370497 / 2 ^ 52"
    using fl64_eqI [of "(1078950425059775 / 2 ^ 50) + (6009533668204697 / 2 ^ 57)" 52 "4503599627370497"] by simp
  have "wilson_ci fl64 5 5 (1 / 2) =
      Inr (if (0::real) < (4128003773107703 / 2 ^ 52) then 4128003773107703 / 2 ^ 52 else 0, if (4503599627370497 / 2 ^ 52) < (1::real) then 4503599627370497 / 2 ^ 52 else 1)"
    by (rule wilson_ci_steps [where rnd = fl64, OF _ _ _ _ _ alpha ha p normal_quantile_fl64_three_quarters phat z2 fn _ _ z2n denom fn2 _ z2n2 cnum _ center fn4 _ z2n4 om pq vnum v _ s zs hw lo hi]) simp_all
  then show ?thesis
    by simp
qed

section \<open>The command line layer: lemmas\<close>

lemma table_row_as_percent:
  "table_row rnd (a\<lparr>arg_as_percent := b\<rparr>) u r = table_row rnd a u r"
  by (simp add: table_row_def Let_def cong: if_cong)

lemma table_rows_as_percent:
  "table_rows rnd (a\<lparr>arg_as_percent := b\<rparr>) u rs = table_rows rnd a u rs"
  by (induction rs) (simp_all add: table_row_as_percent)

lemma main_as_percent:
  assumes "\<not> arg_as_prop a"
  shows "main rnd (a\<lparr>arg_as_percent := b\<rparr>) = main rnd a"
  using assms by (simp add: main_def table_rows_as_percent Let_def cong: sum.case_cong)






section \<open>The claims\<close>

subsection \<open>The interval estimator\<close>

lemma fl64_quantile_argument_half: "fl64 (1 - fl64 (fl64 (1 - 1 / 2) / 2)) = 3 / 4"
proof -
  have a: "fl64 (1 / 2) = 1 / 2"
    using rnd_dyadic [OF rounding_fl64, of 1 1] by simp
  have b: "fl64 (1 / 4) = 1 / 4"
    using rnd_dyadic [OF rounding_fl64, of 1 2] by simp
  have c: "fl64 (3 / 4) = 3 / 4"
    using rnd_dyadic [OF rounding_fl64, of 3 2] by simp
  have h: "(1 - 1 / 2 :: real) = 1 / 2" "(1 / 2 / 2 :: real) = 1 / 4"
    "(1 - 1 / 4 :: real) = 3 / 4"
    by simp_all
  show ?thesis
    by (simp only: h a b c)
qed


lemma wilson_ci_fl64_overflow:
  "wilson_ci fl64 1 (2 ^ 1024) (1 / 2)
     = Inl (OverflowError ''int too large to convert to float'')"
proof -
  have z: "normal_quantile fl64 (fl64 (1 - fl64 (fl64 (1 - 1 / 2) / 2)))
      = Inr (6075263575542849 / 2 ^ 53)"
    unfolding fl64_quantile_argument_half
    using normal_quantile_fl64_three_quarters by simp
  have "fl64 (of_int 1 * 2 powi 1024) = of_int 1 * 2 powi 1024"
    by (rule fl64_fixes) simp
  then have "fl64 (real_of_int (2 ^ 1024)) = 2 ^ 1024"
    by simp
  then have big: "2 ^ 1024 \<le> \<bar>fl64 (real_of_int (2 ^ 1024))\<bar>"
    by simp
  show ?thesis
    by (rule wilson_ci_overflow_rnd [where rnd = fl64, OF _ _ _ _ _ z big]) simp_all
qed

text \<open>
  Claim C1. For successes \<open>k\<close>, trials \<open>n\<close> and confidence \<open>conf\<close> with
  \<open>0 \<le> k \<le> n\<close>, \<open>0 < n\<close> and \<open>0 < conf < 1\<close>, the pair \<open>(low, high)\<close> that
  \<open>wilson_ci\<close> returns satisfies \<open>0 \<le> low \<le> high \<le> 1\<close>, whatever the rounding: in exact
  arithmetic and in binary64 arithmetic.
\<close>

theorem wilson_ci_range:
  assumes "rounding rnd"
    and "0 < n" "0 \<le> k" "k \<le> n" "0 < conf" "conf < 1"
    and "wilson_ci rnd k n conf = Inr (low, high)"
  shows "0 \<le> low \<and> low \<le> high \<and> high \<le> 1"
  using wilson_ci_cases_rnd [OF assms(1-6)] assms(7) by auto

theorem wilson_ci_range_witness:
  "rounding fl64 \<and> (0::int) < 7 \<and> (0::int) \<le> 7 \<and> (7::int) \<le> 7
     \<and> (0::real) < 1 / 2 \<and> (1 / 2 :: real) < 1
     \<and> wilson_ci fl64 7 7 (1 / 2)
         = Inr (8457536215512231 / 2 ^ 53, 9007199254740991 / 2 ^ 53)
     \<and> (0::real) \<le> 8457536215512231 / 2 ^ 53
     \<and> (8457536215512231 / 2 ^ 53 :: real) \<le> 9007199254740991 / 2 ^ 53
     \<and> (9007199254740991 / 2 ^ 53 :: real) \<le> 1"
  using wilson_ci_range [OF rounding_fl64 _ _ _ _ _ wilson_ci_fl64_7_7] rounding_fl64
    wilson_ci_fl64_7_7
  by simp

text \<open>
  Claim C2. For \<open>0 \<le> k \<le> n\<close>, \<open>0 < n\<close> and \<open>0 < conf < 1\<close>, the pair \<open>(low, high)\<close> that
  \<open>wilson_ci\<close> returns brackets the sample proportion: \<open>low \<le> k / n \<le> high\<close>. The code
  does not keep this in binary64 arithmetic. For 7 successes in 7 trials at confidence 0.5
  the sum \<open>center + half_width\<close> is rounded to \<open>1 - 2^-53\<close>: the upper bound is below the sample
  proportion 1, although nothing was clamped. For 5 successes in 5 trials at the same
  confidence the same sum is rounded to \<open>1 + 2^-52\<close> and \<open>min\<close> returns 1.
\<close>

theorem wilson_ci_brackets_fails:
  "wilson_ci fl64 7 7 (1 / 2) = Inr (8457536215512231 / 2 ^ 53, 9007199254740991 / 2 ^ 53)
     \<and> (9007199254740991 / 2 ^ 53 :: real) < real_of_int 7 / real_of_int 7
     \<and> (9007199254740991 / 2 ^ 53 :: real) < fl64 (real_of_int 7 / real_of_int 7)
     \<and> wilson_ci fl64 5 5 (1 / 2) = Inr (4128003773107703 / 2 ^ 52, 1)"
proof -
  have "fl64 (real_of_int 1) = real_of_int 1"
    by (rule rnd_int [OF rounding_fl64]) simp
  then have "fl64 (real_of_int 7 / real_of_int 7) = 1"
    by simp
  then show ?thesis
    using wilson_ci_fl64_7_7 wilson_ci_fl64_5_5 by simp
qed

text \<open>
  Claim C3. \<open>wilson_ci\<close> fails with a domain error if and only if \<open>n \<le> 0\<close>, or \<open>k\<close> is
  outside \<open>[0, n]\<close>, or \<open>conf\<close> is outside the open interval \<open>(0, 1)\<close>; it raises at once,
  and on every other input it returns a result. The code does not keep this. The confidence
  \<open>1 - 2^-53\<close>, the largest binary64 number below 1, passes the guard of \<open>wilson_ci\<close>;
  \<open>alpha\<close> is \<open>2^-53\<close>, \<open>1.0 - alpha / 2.0\<close> is rounded to 1.0, and the guard of
  \<open>normal_quantile\<close> raises \<open>ValueError\<close> on a valid input, after the computation has
  begun. For \<open>n = 2^1024\<close> the conversion of \<open>n\<close> to a float in \<open>z2 / n\<close> raises
  \<open>OverflowError\<close>, after the quantile has been computed. The three inputs of the
  specification that are invalid are refused by the guards of \<open>wilson_ci\<close>.
\<close>

theorem wilson_ci_domain_fails:
  "(0::int) < 10 \<and> (0::int) \<le> 1 \<and> (1::int) \<le> 10
     \<and> (0::real) < 9007199254740991 / 2 ^ 53 \<and> (9007199254740991 / 2 ^ 53 :: real) < 1
     \<and> fl64 (9007199254740991 / 2 ^ 53) = 9007199254740991 / 2 ^ 53
     \<and> wilson_ci fl64 1 10 (9007199254740991 / 2 ^ 53) = Inl (ValueError ''p must be in (0, 1)'')
     \<and> wilson_ci fl64 1 (2 ^ 1024) (1 / 2)
         = Inl (OverflowError ''int too large to convert to float'')
     \<and> wilson_ci fl64 5 0 (fl64 0.95) = Inl (ValueError ''n must be > 0'')
     \<and> wilson_ci fl64 (- 1) 10 (fl64 0.95) = Inl (ValueError ''k must be between 0 and n'')
     \<and> wilson_ci fl64 1 10 1 = Inl (ValueError ''conf must be in (0,1)'')"
proof -
  have "fl64 (of_int 9007199254740991 / 2 ^ 53) = of_int 9007199254740991 / 2 ^ 53"
    by (rule rnd_dyadic [OF rounding_fl64]) simp
  then have "fl64 (9007199254740991 / 2 ^ 53) = 9007199254740991 / 2 ^ 53"
    by simp
  moreover have "wilson_ci fl64 5 0 (fl64 0.95) = Inl (ValueError ''n must be > 0'')"
    "wilson_ci fl64 (- 1) 10 (fl64 0.95) = Inl (ValueError ''k must be between 0 and n'')"
    "wilson_ci fl64 1 10 1 = Inl (ValueError ''conf must be in (0,1)'')"
    by (simp_all add: wilson_ci_def)
  ultimately show ?thesis
    using wilson_ci_fl64_near_one wilson_ci_fl64_overflow by simp
qed

text \<open>
  Claim C5. For \<open>0 < n\<close> and \<open>0 < conf < 1\<close>, \<open>wilson_ci(0, n, conf)\<close> returns \<open>low = 0\<close>
  and \<open>wilson_ci(n, n, conf)\<close> returns \<open>high = 1\<close>. The code does not keep this in binary64
  arithmetic: it has no case for \<open>k = 0\<close> or \<open>k = n\<close> and relies on \<open>center\<close> and
  \<open>half_width\<close>, which are equal for \<open>k = 0\<close>, being rounded alike. For 0 successes in 5
  trials at confidence 0.5 they differ in the last bit and the lower bound is \<open>2^-57\<close>; for 7
  successes in 7 trials the upper bound is \<open>1 - 2^-53\<close>.
\<close>

theorem wilson_ci_boundary_fails:
  "wilson_ci fl64 0 5 (1 / 2) = Inr (1 / 2 ^ 57, 3004766834102349 / 2 ^ 55)
     \<and> (1 / 2 ^ 57 :: real) \<noteq> 0
     \<and> wilson_ci fl64 7 7 (1 / 2)
         = Inr (8457536215512231 / 2 ^ 53, 9007199254740991 / 2 ^ 53)
     \<and> (9007199254740991 / 2 ^ 53 :: real) \<noteq> 1"
  using wilson_ci_fl64_0_5 wilson_ci_fl64_7_7 by simp

subsection \<open>The quantile function\<close>

text \<open>
  Claim C4. Whatever the rounding, \<open>normal_quantile\<close> fails exactly when \<open>p \<le> 0\<close> or
  \<open>p \<ge> 1\<close>, with the \<open>ValueError\<close> of its guard, and it returns a value for every \<open>p\<close>
  strictly between 0 and 1: no logarithm or square root leaves its domain and no
  denominator is zero.
\<close>

theorem normal_quantile_domain:
  assumes "rounding rnd"
  shows "((\<exists>e. normal_quantile rnd p = Inl e) \<longleftrightarrow> p \<le> 0 \<or> 1 \<le> p)
       \<and> (p \<le> 0 \<or> 1 \<le> p \<longrightarrow>
            normal_quantile rnd p = Inl (ValueError ''p must be in (0, 1)''))
       \<and> (0 < p \<and> p < 1 \<longrightarrow> (\<exists>z. normal_quantile rnd p = Inr z))"
proof -
  have bad: "normal_quantile rnd p = Inl (ValueError ''p must be in (0, 1)'')"
    if "p \<le> 0 \<or> 1 \<le> p"
    using that by (auto simp add: normal_quantile_def)
  have good: "\<exists>z. normal_quantile rnd p = Inr z" if "0 < p \<and> p < 1"
    using that normal_quantile_total_rnd [OF assms] by blast
  have "(\<exists>e. normal_quantile rnd p = Inl e) \<longleftrightarrow> p \<le> 0 \<or> 1 \<le> p"
  proof
    assume "\<exists>e. normal_quantile rnd p = Inl e"
    then have "\<not> (0 < p \<and> p < 1)"
      using good by auto
    then show "p \<le> 0 \<or> 1 \<le> p"
      by linarith
  next
    assume "p \<le> 0 \<or> 1 \<le> p"
    then show "\<exists>e. normal_quantile rnd p = Inl e"
      using bad by blast
  qed
  then show ?thesis
    using bad good by blast
qed

theorem normal_quantile_domain_witness:
  "rounding fl64
   \<and> normal_quantile fl64 0 = Inl (ValueError ''p must be in (0, 1)'')
   \<and> normal_quantile fl64 1 = Inl (ValueError ''p must be in (0, 1)'')
   \<and> (\<exists>z. normal_quantile fl64 (1 / 1000) = Inr z)
   \<and> \<not> (\<exists>e. normal_quantile fl64 (999 / 1000) = Inl e)"
  using normal_quantile_domain [OF rounding_fl64, of 0]
    normal_quantile_domain [OF rounding_fl64, of 1]
    normal_quantile_domain [OF rounding_fl64, of "1 / 1000"]
    normal_quantile_domain [OF rounding_fl64, of "999 / 1000"] rounding_fl64
  by simp

text \<open>
  Claim C8. \<open>quantile(0.975)\<close> is within \<open>10^-6\<close> of 1.959963985: in exact arithmetic
  and in binary64 arithmetic, where the argument is the literal \<open>0.975\<close> rounded.
\<close>

theorem normal_quantile_known_value:
  "(\<exists>z. normal_quantile exact 0.975 = Inr z \<and> \<bar>z - 1.959963985\<bar> \<le> 1 / 10 ^ 6)
   \<and> (\<exists>z. normal_quantile fl64 (fl64 0.975) = Inr z \<and> \<bar>z - 1.959963985\<bar> \<le> 1 / 10 ^ 6)"
proof -
  have "\<bar>1565713706127574936278201074 / 798848201913635967184059665 - 1.959963985\<bar>
          \<le> (1 / 10 ^ 6 :: real)"
    by simp
  moreover have "\<bar>4413446538775251 / 2 ^ 51 - 1.959963985\<bar> \<le> (1 / 10 ^ 6 :: real)"
    by simp
  ultimately show ?thesis
    unfolding known_value_exact fl64_975 normal_quantile_fl64_975 by blast
qed

subsection \<open>The process\<close>




text \<open>
  Claim C10. When \<open>--as-prop\<close> is absent, the process is the same with and without
  \<open>--as-percent\<close>: same exit status, same table, same error stream. With \<open>--as-prop\<close>,
  adding \<open>--as-percent\<close> gives the conflict error.
\<close>

theorem as_percent_no_effect:
  "(\<not> arg_as_prop a \<longrightarrow>
      script rnd (a\<lparr>arg_as_percent := True\<rparr>) = script rnd (a\<lparr>arg_as_percent := False\<rparr>))
   \<and> (arg_as_prop a \<longrightarrow>
      script rnd (a\<lparr>arg_as_percent := True\<rparr>)
        = (2, [], [''Error: Choose only one of --as-percent or --as-prop.'']))"
  by (simp add: script_def main_as_percent) (simp add: main_def)

theorem as_percent_no_effect_witness:
  "script fl64 \<lparr>arg_results = [''a=1/2''], arg_conf = 1 / 2, arg_digits = 2,
                   arg_as_percent = True, arg_as_prop = False\<rparr>
     = script fl64 \<lparr>arg_results = [''a=1/2''], arg_conf = 1 / 2, arg_digits = 2,
                       arg_as_percent = False, arg_as_prop = False\<rparr>
   \<and> script fl64 \<lparr>arg_results = [''a=1/2''], arg_conf = 1 / 2, arg_digits = 2,
                     arg_as_percent = True, arg_as_prop = True\<rparr>
       = (2, [], [''Error: Choose only one of --as-percent or --as-prop.''])"
  using as_percent_no_effect [of "\<lparr>arg_results = [''a=1/2''], arg_conf = 1 / 2, arg_digits = 2,
                   arg_as_percent = False, arg_as_prop = False\<rparr>" fl64]
    as_percent_no_effect [of "\<lparr>arg_results = [''a=1/2''], arg_conf = 1 / 2, arg_digits = 2,
                   arg_as_percent = False, arg_as_prop = True\<rparr>" fl64]
  by simp

end
